(* ===== verification/Prelude.thy ===== *)
theory Prelude imports "HOL-Library.Word" "HOL-Library.Sublist" begin

text \<open>
  Shared vocabulary of the development: the machine integers of the crate
  as words of their width, big-endian splitting and joining of words
  (\<open>to_be_bytes\<close> and \<open>from_be_bytes\<close>), slices cut into chunks and resized
  vectors, the contract of an encoder and its decoder, and the generic lemmas on
  lists and words the components share. A fallible operation returns \<open>'e + 'a\<close>, with \<open>Inl\<close> for
  Rust's \<open>Err\<close> and \<open>Inr\<close> for \<open>Ok\<close>. A Rust \<open>str\<close> is the list of its UTF-8
  bytes, as a \<open>string\<close>.
\<close>

unbundle bit_operations_syntax

section \<open>Machine integers\<close>

type_synonym u8 = "8 word"
type_synonym u16 = "16 word"
type_synonym u32 = "32 word"
type_synonym u64 = "64 word"

named_theorems word_unat_simps

text \<open>\<open>u16::from_be_bytes\<close>, \<open>u16::to_be_bytes\<close> and \<open>u32::to_be_bytes\<close>.\<close>

definition from_be16 :: "u8 \<Rightarrow> u8 \<Rightarrow> u16" where
  "from_be16 hi lo = push_bit 8 (ucast hi) OR ucast lo"

definition to_be16 :: "u16 \<Rightarrow> u8 list" where
  "to_be16 w = [ucast (drop_bit 8 w), ucast w]"

definition to_be32 :: "u32 \<Rightarrow> u8 list" where
  "to_be32 w = [ucast (drop_bit 24 w), ucast (drop_bit 16 w), ucast (drop_bit 8 w), ucast w]"

definition from_be32 :: "u8 \<Rightarrow> u8 \<Rightarrow> u8 \<Rightarrow> u8 \<Rightarrow> u32" where
  "from_be32 a b c d =
     push_bit 24 (ucast a) OR push_bit 16 (ucast b) OR push_bit 8 (ucast c) OR ucast d"

lemma length_to_be16 [simp]: "length (to_be16 w) = 2"
  by (simp add: to_be16_def)

lemma length_to_be32 [simp]: "length (to_be32 w) = 4"
  by (simp add: to_be32_def)

lemma from_be16_split [simp]: "from_be16 (ucast (drop_bit 8 w)) (ucast w) = w"
  unfolding from_be16_def
  by (rule bit_word_eqI) (auto simp: bit_simps)

lemma ucast_drop_from_be16 [simp]: "ucast (drop_bit 8 (from_be16 hi lo)) = hi"
  unfolding from_be16_def
  by (rule bit_word_eqI) (auto simp: bit_simps dest: bit_imp_le_length)

lemma ucast_from_be16 [simp]: "ucast (from_be16 hi lo) = lo"
  unfolding from_be16_def
  by (rule bit_word_eqI) (auto simp: bit_simps)

lemma from_be16_inject [simp]: "from_be16 a b = from_be16 c d \<longleftrightarrow> a = c \<and> b = d"
  by (metis ucast_drop_from_be16 ucast_from_be16)

lemma unat_from_be16 [word_unat_simps]:
  "unat (from_be16 hi lo) = unat hi * 256 + unat lo"
proof -
  have "from_be16 hi lo = push_bit 8 (ucast hi) + ucast lo"
    unfolding from_be16_def
    by (rule disjunctive_add_eq_or [symmetric]) (auto simp: bit_eq_iff bit_simps dest: bit_imp_le_length)
  moreover have "unat hi < 256" and "unat lo < 256"
    using unsigned_less [of hi] unsigned_less [of lo] by simp_all
  ultimately show ?thesis
    by (simp add: unat_word_ariths push_bit_eq_mult unsigned_ucast_eq take_bit_eq_mod)
qed

text \<open>Splitting off the first \<open>n\<close> and the last elements of a list.\<close>

lemma list_split_first:
  assumes "Suc n \<le> length xs"
  obtains y ys where "xs = y # ys" and "n \<le> length ys"
  using assms by (cases xs) auto

lemma list_split_last:
  assumes "Suc n \<le> length xs"
  obtains y ys where "xs = ys @ [y]" and "n \<le> length ys"
  using assms by (cases xs rule: rev_cases) auto

text \<open>\<open>Iterator::rposition\<close>: the index of the last element that satisfies a test.\<close>

primrec rposition :: "('a \<Rightarrow> bool) \<Rightarrow> 'a list \<Rightarrow> nat option" where
  "rposition P [] = None"
| "rposition P (x # xs) =
     (case rposition P xs of Some i \<Rightarrow> Some (Suc i) | None \<Rightarrow> if P x then Some 0 else None)"

lemma rposition_None_iff: "rposition P xs = None \<longleftrightarrow> (\<forall>x \<in> set xs. \<not> P x)"
  by (induction xs) (auto split: option.splits)

lemma all_Suc_shift:
  "(\<forall>j. i < j \<and> j < Suc n \<longrightarrow> Q j) \<longleftrightarrow> (\<forall>j. i \<le> j \<and> j < n \<longrightarrow> Q (Suc j))"
proof safe
  fix j
  assume "\<forall>j. i \<le> j \<and> j < n \<longrightarrow> Q (Suc j)" and "i < j" and "j < Suc n"
  then show "Q j" by (cases j) auto
qed auto

lemma rposition_Some_iff:
  "rposition P xs = Some i \<longleftrightarrow>
     i < length xs \<and> P (xs ! i) \<and> (\<forall>j. i < j \<and> j < length xs \<longrightarrow> \<not> P (xs ! j))"
proof (induction xs arbitrary: i)
  case (Cons x xs)
  show ?case
  proof (cases "rposition P xs")
    case None
    then have "\<not> P (xs ! j)" if "j < length xs" for j
      using that by (simp add: rposition_None_iff)
    with None show ?thesis by (cases i) (auto simp: all_Suc_shift)
  next
    case (Some k)
    then show ?thesis
      using Cons.IH [of k] Cons.IH [of "i - 1"]
      by (cases i) (auto simp: all_Suc_shift less_eq_Suc_le [symmetric])
  qed
qed simp

text \<open>\<open>slice::chunks\<close> for a positive size, and \<open>Vec::resize\<close>.\<close>

fun slice_chunks :: "nat \<Rightarrow> 'a list \<Rightarrow> 'a list list" where
  "slice_chunks n xs = (if xs = [] \<or> n = 0 then [] else take n xs # slice_chunks n (drop n xs))"

declare slice_chunks.simps [simp del]

definition resize :: "nat \<Rightarrow> 'a \<Rightarrow> 'a list \<Rightarrow> 'a list" where
  "resize n x xs = take n xs @ replicate (n - length xs) x"

lemma length_resize [simp]: "length (resize n x xs) = n"
  by (simp add: resize_def min_def)

lemma concat_slice_chunks: "0 < n \<Longrightarrow> concat (slice_chunks n xs) = xs"
proof (induction n xs rule: slice_chunks.induct)
  case (1 n xs)
  then show ?case by (subst slice_chunks.simps) auto
qed

lemma slice_chunks_exact: "0 < n \<Longrightarrow> length xs = k * n \<Longrightarrow>
    length (slice_chunks n xs) = k \<and> (\<forall>c \<in> set (slice_chunks n xs). length c = n)"
proof (induction k arbitrary: xs)
  case 0
  then show ?case by (simp add: slice_chunks.simps)
next
  case (Suc k)
  then have "xs \<noteq> []" and d: "length (drop n xs) = k * n" and t: "length (take n xs) = n" by auto
  then have "slice_chunks n xs = take n xs # slice_chunks n (drop n xs)"
    using Suc.prems(1) by (subst slice_chunks.simps) simp
  then show ?case using Suc.IH [OF Suc.prems(1) d] t by simp
qed

text \<open>The byte value of an unsigned 8-bit word as a bound for arithmetic.\<close>

lemma unat_u8_less [simp]: "unat (b :: u8) < 256"
  using unsigned_less [of b] by simp

lemma unat_u16_less [simp]: "unat (b :: u16) < 65536"
  using unsigned_less [of b] by simp

lemma unat_u32_less [simp]: "unat (b :: u32) < 4294967296"
  using unsigned_less [of b] by simp

lemma unat_u64_less [simp]: "unat (b :: u64) < 18446744073709551616"
  using unsigned_less [of b] by simp

lemma unat_of_nat_u16: "n < 65536 \<Longrightarrow> unat (of_nat n :: u16) = n"
  by (simp add: unsigned_of_nat take_bit_nat_eq_self)

lemma unat_of_nat_u32: "n < 4294967296 \<Longrightarrow> unat (of_nat n :: u32) = n"
  by (simp add: unsigned_of_nat take_bit_nat_eq_self)

lemma unat_of_nat_u64: "n < 18446744073709551616 \<Longrightarrow> unat (of_nat n :: u64) = n"
  by (simp add: unsigned_of_nat take_bit_nat_eq_self)

text \<open>Masking with \<open>0xFF\<close> before narrowing to a byte changes nothing.\<close>

lemma ucast_and_0xFF [simp]: "(ucast (w AND 0xFF :: u16) :: u8) = ucast w"
proof -
  have "(0xFF :: u16) = mask 8" by (simp add: mask_eq_exp_minus_1)
  show ?thesis
    unfolding \<open>0xFF = mask 8\<close> by (rule bit_word_eqI) (auto simp: bit_simps)
qed

section \<open>Codecs\<close>

text \<open>
  The contract of an encoder and its decoder. A \<open>codec\<close> reads back what it
  wrote; a \<open>strict_codec\<close> also reads nothing else, so its decoder accepts exactly
  the encodings.
\<close>

locale codec =
  fixes enc :: "'a \<Rightarrow> 'b" and dec :: "'b \<Rightarrow> 'e + 'a"
  assumes dec_enc: "dec (enc x) = Inr x"
begin

lemma enc_inject: "enc x = enc y \<longleftrightarrow> x = y"
  by (metis dec_enc sum.inject(2))

lemma enc_not_rejected: "dec (enc x) \<noteq> Inl e"
  by (simp add: dec_enc)

end

locale strict_codec = codec enc dec for enc :: "'a \<Rightarrow> 'b" and dec :: "'b \<Rightarrow> 'e + 'a" +
  assumes enc_dec: "dec b = Inr x \<Longrightarrow> enc x = b"
begin

lemma dec_iff: "dec b = Inr x \<longleftrightarrow> b = enc x"
  using dec_enc enc_dec by blast

lemma rejects_iff: "(\<exists>e. dec b = Inl e) \<longleftrightarrow> b \<notin> range enc"
  by (metis dec_enc enc_dec old.sum.exhaust rangeE rangeI sum.distinct(1))

end

end
