(* ===== verification/Rust_Text.thy ===== *)
theory Rust_Text imports Prelude begin

text \<open>
  The parts of Rust's text API the program calls, on a \<open>str\<close> taken as its UTF-8
  bytes: decimal and hexadecimal formatting (\<open>{}\<close>, \<open>{:02x}\<close>, \<open>{:04x}\<close>),
  \<open>from_str_radix\<close> and \<open>parse\<close> for the unsigned integers, \<open>parse\<close> for the signed one, \<open>trim\<close>, \<open>lines\<close>
  and \<open>split_whitespace\<close>. Whitespace is Unicode's \<open>White_Space\<close> set, matched on
  whole UTF-8 sequences. Nothing here is code of the repository; it is the
  standard library as the repository uses it.
\<close>

section \<open>UTF-8 and whitespace\<close>

definition utf8 :: "nat \<Rightarrow> string" where
  "utf8 n =
     (if n < 0x80 then [char_of n]
      else if n < 0x800 then [char_of (0xC0 + n div 0x40), char_of (0x80 + n mod 0x40)]
      else if n < 0x10000
      then [char_of (0xE0 + n div 0x1000), char_of (0x80 + n div 0x40 mod 0x40),
            char_of (0x80 + n mod 0x40)]
      else [char_of (0xF0 + n div 0x40000), char_of (0x80 + n div 0x1000 mod 0x40),
            char_of (0x80 + n div 0x40 mod 0x40), char_of (0x80 + n mod 0x40)])"

definition WS_CODEPOINTS :: "nat list" where
  "WS_CODEPOINTS =
     [0x09, 0x0A, 0x0B, 0x0C, 0x0D, 0x20, 0x85, 0xA0, 0x1680,
      0x2000, 0x2001, 0x2002, 0x2003, 0x2004, 0x2005, 0x2006, 0x2007, 0x2008, 0x2009, 0x200A,
      0x2028, 0x2029, 0x202F, 0x205F, 0x3000]"

definition ws_at :: "string \<Rightarrow> nat" where
  "ws_at s = (case find (\<lambda>n. prefix (utf8 n) s) WS_CODEPOINTS of None \<Rightarrow> 0 | Some n \<Rightarrow> length (utf8 n))"

definition ws_end :: "string \<Rightarrow> nat" where
  "ws_end s = (case find (\<lambda>n. suffix (utf8 n) s) WS_CODEPOINTS of None \<Rightarrow> 0 | Some n \<Rightarrow> length (utf8 n))"

lemma find_SomeD: "find P xs = Some x \<Longrightarrow> P x \<and> x \<in> set xs"
  by (auto simp: find_Some_iff)

lemma length_utf8_pos [simp]: "0 < length (utf8 n)"
  by (simp add: utf8_def)

lemma ws_at_le: "ws_at s \<le> length s"
  by (auto simp: ws_at_def dest: find_SomeD prefix_length_le split: option.splits)

lemma ws_end_le: "ws_end s \<le> length s"
  by (auto simp: ws_end_def dest: find_SomeD suffix_length_le split: option.splits)

function trim_start :: "string \<Rightarrow> string" where
  "trim_start s = (if ws_at s = 0 then s else trim_start (drop (ws_at s) s))"
  by pat_completeness auto
termination
proof (relation "measure length")
  fix s :: string
  assume "ws_at s \<noteq> 0"
  then show "(drop (ws_at s) s, s) \<in> measure length"
    using ws_at_le [of s] by simp
qed simp

function trim_end :: "string \<Rightarrow> string" where
  "trim_end s = (if ws_end s = 0 then s else trim_end (take (length s - ws_end s) s))"
  by pat_completeness auto
termination
proof (relation "measure length")
  fix s :: string
  assume "ws_end s \<noteq> 0"
  then show "(take (length s - ws_end s) s, s) \<in> measure length"
    using ws_end_le [of s] by simp
qed simp

declare trim_start.simps [simp del] trim_end.simps [simp del]

definition trim :: "string \<Rightarrow> string" where
  "trim s = trim_end (trim_start s)"

text \<open>\<open>split_whitespace\<close> is \<open>split(char::is_whitespace)\<close> without its empty pieces.\<close>

function split_ws :: "string \<Rightarrow> string \<Rightarrow> string list" where
  "split_ws cur s =
     (if s = [] then [cur]
      else if ws_at s = 0 then split_ws (cur @ [hd s]) (tl s)
      else cur # split_ws [] (drop (ws_at s) s))"
  by pat_completeness auto
termination
proof (relation "measure (\<lambda>(cur, s). length s)")
  fix cur s :: string
  assume "s \<noteq> []" and "ws_at s \<noteq> 0"
  then show "(([], drop (ws_at s) s), (cur, s)) \<in> measure (\<lambda>(cur, s). length s)"
    by simp
qed simp_all

declare split_ws.simps [simp del]

definition split_whitespace :: "string \<Rightarrow> string list" where
  "split_whitespace s = filter (\<lambda>t. t \<noteq> []) (split_ws [] s)"

section \<open>Lines\<close>

fun split_inclusive :: "string \<Rightarrow> string \<Rightarrow> string list" where
  "split_inclusive cur [] = (if cur = [] then [] else [cur])"
| "split_inclusive cur (c # cs) =
     (if c = CHR 0x0A then (cur @ [c]) # split_inclusive [] cs
      else split_inclusive (cur @ [c]) cs)"

definition strip_suffix_char :: "char \<Rightarrow> string \<Rightarrow> string option" where
  "strip_suffix_char c s = (if s \<noteq> [] \<and> last s = c then Some (butlast s) else None)"

definition strip_eol :: "string \<Rightarrow> string" where
  "strip_eol l =
     (case strip_suffix_char (CHR 0x0A) l of
        None \<Rightarrow> l
      | Some l' \<Rightarrow> (case strip_suffix_char (CHR 0x0D) l' of None \<Rightarrow> l' | Some l'' \<Rightarrow> l''))"

definition lines :: "string \<Rightarrow> string list" where
  "lines s = map strip_eol (split_inclusive [] s)"

section \<open>Numbers\<close>

fun radix_digits :: "nat \<Rightarrow> nat \<Rightarrow> nat list" where
  "radix_digits r n = (if r < 2 \<or> n < r then [n] else radix_digits r (n div r) @ [n mod r])"

declare radix_digits.simps [simp del]

definition digit_char :: "nat \<Rightarrow> char" where
  "digit_char d = (if d < 10 then char_of (48 + d) else char_of (87 + d))"

text \<open>\<open>{}\<close> and \<open>{:0wx}\<close>\<close>

definition fmt_dec :: "nat \<Rightarrow> string" where
  "fmt_dec n = map digit_char (radix_digits 10 n)"

definition fmt_hex :: "nat \<Rightarrow> nat \<Rightarrow> string" where
  "fmt_hex w n =
     (let s = map digit_char (radix_digits 16 n) in replicate (w - length s) (CHR ''0'') @ s)"

text \<open>\<open>char::to_digit\<close>\<close>

definition to_digit :: "nat \<Rightarrow> char \<Rightarrow> nat option" where
  "to_digit r c =
     (let n = of_char c;
          d = (if 48 \<le> n \<and> n \<le> 57 then n - 48
               else if 97 \<le> n \<and> n \<le> 122 then n - 87
               else if 65 \<le> n \<and> n \<le> 90 then n - 55
               else r)
      in if d < r then Some d else None)"

fun parse_digits :: "nat \<Rightarrow> nat \<Rightarrow> nat \<Rightarrow> string \<Rightarrow> nat option" where
  "parse_digits r mx acc [] = Some acc"
| "parse_digits r mx acc (c # cs) =
     (case to_digit r c of
        None \<Rightarrow> None
      | Some d \<Rightarrow> if mx < acc * r + d then None else parse_digits r mx (acc * r + d) cs)"

text \<open>
  \<open>uN::from_str_radix\<close> (and \<open>parse\<close>, its decimal case): one leading \<open>+\<close> is
  accepted, an empty text or a lone sign is not, and a value above the type's
  maximum is an error.
\<close>

definition from_str_radix :: "nat \<Rightarrow> nat \<Rightarrow> string \<Rightarrow> nat option" where
  "from_str_radix r mx s =
     (case s of
        [] \<Rightarrow> None
      | c # cs \<Rightarrow>
          if c = CHR ''+'' then (if cs = [] then None else parse_digits r mx 0 cs)
          else parse_digits r mx 0 (c # cs))"

text \<open>\<open>parse\<close> for the signed 64-bit integer, which also takes a leading \<open>-\<close>.\<close>

definition i64_from_str :: "string \<Rightarrow> int option" where
  "i64_from_str s =
     (case s of
        CHR ''-'' # c # cs \<Rightarrow> map_option (\<lambda>n. - int n) (parse_digits 10 (2 ^ 63) 0 (c # cs))
      | _ \<Rightarrow> map_option int (from_str_radix 10 (2 ^ 63 - 1) s))"

section \<open>Facts about whitespace and digits\<close>

lemmas char_eval = char_of_def bit_0

text \<open>An ASCII byte that is not a space starts no whitespace sequence.\<close>

definition ascii_solid :: "char \<Rightarrow> bool" where
  "ascii_solid c \<longleftrightarrow> 0x20 < (of_char c :: nat) \<and> (of_char c :: nat) < 0x80"

lemma utf8_WS_hd:
  "n \<in> set WS_CODEPOINTS \<Longrightarrow>
     (of_char (hd (utf8 n)) :: nat) \<le> 0x20 \<or> 0x80 \<le> (of_char (hd (utf8 n)) :: nat)"
  by (auto simp: WS_CODEPOINTS_def utf8_def)

lemma ws_at_solid [simp]: "ascii_solid c \<Longrightarrow> ws_at (c # s) = 0"
proof -
  assume c: "ascii_solid c"
  have "find (\<lambda>n. prefix (utf8 n) (c # s)) WS_CODEPOINTS = None"
  proof (rule ccontr)
    assume "find (\<lambda>n. prefix (utf8 n) (c # s)) WS_CODEPOINTS \<noteq> None"
    then obtain n where "prefix (utf8 n) (c # s)" and n: "n \<in> set WS_CODEPOINTS"
      by (auto dest: find_SomeD)
    moreover have "utf8 n \<noteq> []" using length_utf8_pos [of n] by fastforce
    ultimately have "hd (utf8 n) = c" by (cases "utf8 n") auto
    with utf8_WS_hd [OF n] c show False by (auto simp: ascii_solid_def)
  qed
  then show ?thesis by (simp add: ws_at_def)
qed

lemma ws_at_space [simp]: "ws_at (CHR '' '' # s) = 1"
  by (simp add: ws_at_def WS_CODEPOINTS_def utf8_def char_eval)

lemma ws_at_Nil [simp]: "ws_at [] = 0"
  by (simp add: ws_at_def WS_CODEPOINTS_def utf8_def)

lemma split_ws_solid: "\<forall>c \<in> set t. ascii_solid c \<Longrightarrow> split_ws cur (t @ s) = split_ws (cur @ t) s"
proof (induction t arbitrary: cur)
  case (Cons c t)
  then show ?case
    by (subst split_ws.simps) simp
qed simp

lemma split_ws_Nil [simp]: "split_ws cur [] = [cur]"
  by (simp add: split_ws.simps)

lemma split_ws_space [simp]: "split_ws cur (CHR '' '' # s) = cur # split_ws [] s"
  by (simp add: split_ws.simps)

lemma radix_digits_less:
  "2 \<le> r \<Longrightarrow> d \<in> set (radix_digits r n) \<Longrightarrow> d < r"
proof (induction r n rule: radix_digits.induct)
  case (1 r n)
  show ?case
  proof (cases "n < r")
    case True
    with "1.prems" show ?thesis by (subst (asm) radix_digits.simps) simp
  next
    case False
    with "1.prems" have "d \<in> set (radix_digits r (n div r)) \<or> d = n mod r"
      by (subst (asm) radix_digits.simps) auto
    then show ?thesis using "1.IH" "1.prems" False by auto
  qed
qed

lemma of_char_digit_char: "d < 16 \<Longrightarrow> (of_char (digit_char d) :: nat) = (if d < 10 then 48 + d else 87 + d)"
  by (simp add: digit_char_def)

lemma to_digit_digit_char [simp]: "d < r \<Longrightarrow> r \<le> 16 \<Longrightarrow> to_digit r (digit_char d) = Some d"
  by (auto simp: to_digit_def of_char_digit_char Let_def)

lemma digit_char_solid [simp]: "d < 16 \<Longrightarrow> ascii_solid (digit_char d)"
  by (auto simp: ascii_solid_def of_char_digit_char)

lemma digit_char_not_plus [simp]: "d < 16 \<Longrightarrow> digit_char d \<noteq> CHR ''+''"
proof
  assume "d < 16" and "digit_char d = CHR ''+''"
  then have "(of_char (CHR ''+'') :: nat) = (if d < 10 then 48 + d else 87 + d)"
    by (metis of_char_digit_char)
  then show False by (simp split: if_splits)
qed

lemma fmt_hex_two:
  assumes "n < 256"
  shows "fmt_hex 2 n = [digit_char (n div 16), digit_char (n mod 16)]"
proof (cases "n < 16")
  case True
  then have "radix_digits 16 n = [n]" by (simp add: radix_digits.simps)
  with True show ?thesis by (simp add: fmt_hex_def digit_char_def char_eval)
next
  case False
  moreover from assms have "n div 16 < 16" by simp
  ultimately have "radix_digits 16 n = [n div 16, n mod 16]"
    by (subst radix_digits.simps, subst radix_digits.simps) simp
  then show ?thesis by (simp add: fmt_hex_def)
qed

lemma from_str_radix_fmt_hex_two:
  assumes "n < 256"
  shows "from_str_radix 16 255 (fmt_hex 2 n) = Some n"
proof -
  have "n div 16 < 16" "n mod 16 < 16" "n div 16 * 16 + n mod 16 = n" "n div 16 \<le> 255"
    using assms by auto
  then show ?thesis
    using assms by (simp add: fmt_hex_two from_str_radix_def)
qed


section \<open>Printed numbers are read back\<close>

lemma parse_digits_append:
  "parse_digits r mx acc (xs @ ys) =
     (case parse_digits r mx acc xs of None \<Rightarrow> None | Some acc \<Rightarrow> parse_digits r mx acc ys)"
  by (induction xs arbitrary: acc) (auto split: option.splits)

lemma parse_radix_digits:
  "2 \<le> r \<Longrightarrow> r \<le> 16 \<Longrightarrow> n \<le> mx \<Longrightarrow> parse_digits r mx 0 (map digit_char (radix_digits r n)) = Some n"
proof (induction r n rule: radix_digits.induct)
  case (1 r n)
  show ?case
  proof (cases "n < r")
    case True
    with "1.prems" show ?thesis by (simp add: radix_digits.simps [of r n])
  next
    case False
    then have "parse_digits r mx 0 (map digit_char (radix_digits r (n div r))) = Some (n div r)"
      using "1.prems" div_le_dividend [of n r] by (intro "1.IH") linarith+
    moreover have "n mod r < r" using "1.prems" by simp
    ultimately show ?thesis
      using "1.prems" False by (simp add: radix_digits.simps [of r n] parse_digits_append)
  qed
qed

lemma radix_digits_not_Nil: "radix_digits r n \<noteq> []"
  by (simp add: radix_digits.simps [of r n])

lemma fmt_dec_Cons: obtains c cs where "fmt_dec n = c # cs" "c \<noteq> CHR ''+''" "c \<noteq> CHR ''-''"
proof -
  obtain d ds where d: "radix_digits 10 n = d # ds" using radix_digits_not_Nil by (cases "radix_digits 10 n") auto
  then have "d < 10" using radix_digits_less [of 10 d n] by simp
  then have "digit_char d \<noteq> CHR ''-''"
    using of_char_digit_char [of d] by (auto simp del: of_char_of dest: arg_cong [of _ _ "of_char :: _ \<Rightarrow> nat"])
  moreover have "digit_char d \<noteq> CHR ''+''" using \<open>d < 10\<close> by simp
  ultimately show thesis using d by (intro that) (simp_all add: fmt_dec_def)
qed

lemma from_str_fmt_dec [simp]: "n \<le> mx \<Longrightarrow> from_str_radix 10 mx (fmt_dec n) = Some n"
proof -
  assume "n \<le> mx"
  then have "parse_digits 10 mx 0 (fmt_dec n) = Some n" by (simp add: fmt_dec_def parse_radix_digits)
  moreover obtain c cs where "fmt_dec n = c # cs" "c \<noteq> CHR ''+''" by (rule fmt_dec_Cons)
  ultimately show ?thesis by (simp add: from_str_radix_def del: parse_digits.simps)
qed

definition fmt_int :: "int \<Rightarrow> string" where
  "fmt_int i = (if i < 0 then CHR ''-'' # fmt_dec (nat (- i)) else fmt_dec (nat i))"

lemma i64_from_fmt_int:
  assumes "- (2 ^ 63) \<le> i" and "i < 2 ^ 63"
  shows "i64_from_str (fmt_int i) = Some i"
proof (cases "i < 0")
  case True
  obtain c cs where c: "fmt_dec (nat (- i)) = c # cs" by (rule fmt_dec_Cons)
  have "nat (- i) \<le> 2 ^ 63" using assms by simp
  then have "parse_digits 10 (2 ^ 63) 0 (c # cs) = Some (nat (- i))"
    using parse_radix_digits [of 10 "nat (- i)" "2 ^ 63"] by (simp add: fmt_dec_def [symmetric] c del: parse_digits.simps)
  with True c show ?thesis by (simp add: fmt_int_def i64_from_str_def del: parse_digits.simps)
next
  case False
  obtain c cs where c: "fmt_dec (nat i) = c # cs" "c \<noteq> CHR ''-''" by (rule fmt_dec_Cons)
  have "nat i \<le> 2 ^ 63 - 1" using assms by simp
  then have "from_str_radix 10 (2 ^ 63 - 1) (c # cs) = Some (nat i)"
    using from_str_fmt_dec [of "nat i" "2 ^ 63 - 1"] by (simp only: c)
  moreover have "i64_from_str (c # cs) = map_option int (from_str_radix 10 (2 ^ 63 - 1) (c # cs))"
    using c(2) by (auto simp: i64_from_str_def split: list.split char.split bool.split)
  ultimately show ?thesis using False c(1) by (simp add: fmt_int_def)
qed

end
