(* ===== verification/Frame.thy ===== *)
theory Frame imports Rust_Text begin

text \<open>
  The frame codec of \<open>src/src/frame.rs\<close>: the direction byte, a decoded frame, its
  wire length and \<open>LEN\<close> field (a \<open>usize as u16\<close> cast, so it wraps), the 8-bit
  checksum, \<open>encode\<close>, \<open>decode\<close> with one error per check in the order of the code,
  and the echo test. The lemmas show that \<open>encode\<close> and \<open>decode\<close> are inverse on
  every frame, that \<open>decode\<close> accepts nothing else, and that a corrupted byte is
  always noticed.
\<close>

section \<open>Constants and data\<close>

definition MAGIC0 :: u8 where "MAGIC0 = 0x46"
definition MAGIC1 :: u8 where "MAGIC1 = 0xB9"
definition MAGIC :: "u8 list" where "MAGIC = [MAGIC0, MAGIC1]"
definition DIR_HOST_TO_MCU :: u8 where "DIR_HOST_TO_MCU = 0x6A"
definition DIR_MCU_TO_HOST :: u8 where "DIR_MCU_TO_HOST = 0x68"
definition TERMINATOR :: u8 where "TERMINATOR = 0x16"
definition FRAME_OVERHEAD :: nat where "FRAME_OVERHEAD = 8"
definition MIN_LEN_FIELD :: u16 where "MIN_LEN_FIELD = 6"
definition MAX_LEN_FIELD :: u16 where "MAX_LEN_FIELD = 1024"

lemmas frame_consts = MAGIC0_def MAGIC1_def MAGIC_def DIR_HOST_TO_MCU_def DIR_MCU_TO_HOST_def
  TERMINATOR_def FRAME_OVERHEAD_def MIN_LEN_FIELD_def MAX_LEN_FIELD_def

datatype dir = HostToMcu | McuToHost

fun dir_byte :: "dir \<Rightarrow> u8" where
  "dir_byte HostToMcu = DIR_HOST_TO_MCU"
| "dir_byte McuToHost = DIR_MCU_TO_HOST"

definition dir_from_byte :: "u8 \<Rightarrow> dir option" where
  "dir_from_byte b =
     (if b = DIR_HOST_TO_MCU then Some HostToMcu
      else if b = DIR_MCU_TO_HOST then Some McuToHost
      else None)"

record frame =
  dir :: dir
  cmd :: u8
  payload :: "u8 list"

datatype frame_error =
    TooShort nat
  | BadMagic u8 u8
  | BadLength u16 u16
  | BadTerminator u8
  | BadChecksum u8 u8
  | BadDir u8
  | ImplausibleLength u16

section \<open>Operations\<close>

definition frame_host :: "u8 \<Rightarrow> u8 list \<Rightarrow> frame" where
  "frame_host c p = \<lparr>dir = HostToMcu, cmd = c, payload = p\<rparr>"

definition frame_mcu :: "u8 \<Rightarrow> u8 list \<Rightarrow> frame" where
  "frame_mcu c p = \<lparr>dir = McuToHost, cmd = c, payload = p\<rparr>"

definition wire_len :: "frame \<Rightarrow> nat" where
  "wire_len f = length (payload f) + FRAME_OVERHEAD"

definition len_field :: "frame \<Rightarrow> u16" where
  "len_field f = of_nat (wire_len f - 2)"

text \<open>\<open>body.iter().fold(0u8, |a, b| a.wrapping_add(*b))\<close>\<close>

definition checksum :: "u8 list \<Rightarrow> u8" where
  "checksum body = foldl (\<lambda>a b. a + b) 0 body"

definition encode :: "frame \<Rightarrow> u8 list" where
  "encode f =
     (let out = MAGIC @ [dir_byte (dir f)];
          len = len_field f;
          out = out @ [ucast (drop_bit 8 len)] @ [ucast (len AND 0xFF)] @ [cmd f] @ payload f;
          out = out @ [checksum (drop 2 out)]
      in out @ [TERMINATOR])"

definition decode :: "u8 list \<Rightarrow> frame_error + frame" where
  "decode bytes =
     (if length bytes < FRAME_OVERHEAD then Inl (TooShort (length bytes))
      else if bytes ! 0 \<noteq> MAGIC0 \<or> bytes ! 1 \<noteq> MAGIC1 then Inl (BadMagic (bytes ! 0) (bytes ! 1))
      else let declared = from_be16 (bytes ! 3) (bytes ! 4);
               actual = of_nat (length bytes - 2)
           in if declared \<noteq> actual then Inl (BadLength declared actual)
      else if last bytes \<noteq> TERMINATOR then Inl (BadTerminator (last bytes))
      else let n = length bytes;
               got = bytes ! (n - 2);
               computed = checksum (drop 2 (take (n - 2) bytes))
           in if got \<noteq> computed then Inl (BadChecksum computed got)
      else case dir_from_byte (bytes ! 2) of
             None \<Rightarrow> Inl (BadDir (bytes ! 2))
           | Some d \<Rightarrow> Inr \<lparr>dir = d, cmd = bytes ! 5, payload = drop 6 (take (n - 2) bytes)\<rparr>)"

definition is_echo_of :: "frame \<Rightarrow> frame \<Rightarrow> bool" where
  "is_echo_of self req \<longleftrightarrow>
     dir self = McuToHost \<and> dir req = HostToMcu \<and> cmd self = cmd req \<and> payload self = payload req"

text \<open>\<open>hex\<close>, the loop that pushes a space before every byte but the first, and \<open>unhex\<close>,
  whose error message quotes the token it could not read (the \<open>Inl\<close> value).\<close>

primrec hex_loop :: "nat \<Rightarrow> string \<Rightarrow> u8 list \<Rightarrow> string" where
  "hex_loop i s [] = s"
| "hex_loop i s (b # bs) =
     hex_loop (i + 1) ((if i > 0 then s @ '' '' else s) @ fmt_hex 2 (unat b)) bs"

definition hex :: "u8 list \<Rightarrow> string" where
  "hex bytes = hex_loop 0 [] bytes"

primrec unhex_tokens :: "string list \<Rightarrow> string + u8 list" where
  "unhex_tokens [] = Inr []"
| "unhex_tokens (t # ts) =
     (case from_str_radix 16 255 t of
        None \<Rightarrow> Inl t
      | Some n \<Rightarrow> (case unhex_tokens ts of Inl e \<Rightarrow> Inl e | Inr bs \<Rightarrow> Inr (of_nat n # bs)))"

definition unhex :: "string \<Rightarrow> string + u8 list" where
  "unhex s = unhex_tokens (split_whitespace s)"

section \<open>Characteristic equations\<close>

lemma dir_from_byte_dir_byte [simp]: "dir_from_byte (dir_byte d) = Some d"
  by (cases d) (simp_all add: dir_from_byte_def frame_consts)

lemma dir_from_byte_Some: "dir_from_byte b = Some d \<longleftrightarrow> b = dir_byte d"
  by (cases d) (auto simp: dir_from_byte_def frame_consts)

lemma dir_byte_inject [simp]: "dir_byte d = dir_byte d' \<longleftrightarrow> d = d'"
  by (metis dir_from_byte_dir_byte option.inject)

lemma checksum_foldl: "foldl (\<lambda>a b. a + b) a body = a + sum_list (body :: u8 list)"
  by (induction body arbitrary: a) (simp_all add: algebra_simps)

lemma checksum_eq: "checksum body = sum_list body"
  by (simp add: checksum_def checksum_foldl)

lemma checksum_append [simp]: "checksum (xs @ ys) = checksum xs + checksum ys"
  by (simp add: checksum_eq)

text \<open>A frame as the six header bytes, the payload and the two trailer bytes.\<close>

lemma encode_eq:
  "encode f =
     [MAGIC0, MAGIC1, dir_byte (dir f), ucast (drop_bit 8 (len_field f)), ucast (len_field f), cmd f]
     @ payload f
     @ [checksum ([dir_byte (dir f), ucast (drop_bit 8 (len_field f)), ucast (len_field f), cmd f]
          @ payload f), TERMINATOR]"
  by (simp add: encode_def MAGIC_def Let_def checksum_eq)

lemma length_encode [simp]: "length (encode f) = wire_len f"
  by (simp add: encode_eq wire_len_def FRAME_OVERHEAD_def)

lemma frame_bytes_cases:
  assumes "FRAME_OVERHEAD \<le> length bytes"
  obtains m0 m1 d h l c p k t where "bytes = [m0, m1, d, h, l, c] @ p @ [k, t]"
proof -
  from assms have "Suc (Suc (Suc (Suc (Suc (Suc (Suc (Suc 0))))))) \<le> length bytes"
    by (simp add: FRAME_OVERHEAD_def)
  then show thesis
    by (elim list_split_first list_split_last) (use that in simp)
qed

lemma decode_shape:
  "decode ([m0, m1, d, h, l, c] @ p @ [k, t]) =
     (if m0 \<noteq> MAGIC0 \<or> m1 \<noteq> MAGIC1 then Inl (BadMagic m0 m1)
      else if from_be16 h l \<noteq> of_nat (length p + 6)
      then Inl (BadLength (from_be16 h l) (of_nat (length p + 6)))
      else if t \<noteq> TERMINATOR then Inl (BadTerminator t)
      else if k \<noteq> checksum ([d, h, l, c] @ p) then Inl (BadChecksum (checksum ([d, h, l, c] @ p)) k)
      else case dir_from_byte d of None \<Rightarrow> Inl (BadDir d)
        | Some d' \<Rightarrow> Inr \<lparr>dir = d', cmd = c, payload = p\<rparr>)"
proof -
  let ?b = "[m0, m1, d, h, l, c] @ p @ [k, t]"
  have len: "length ?b = length p + 8" and last: "last ?b = t"
    and nth: "?b ! 0 = m0" "?b ! 1 = m1" "?b ! 2 = d" "?b ! 3 = h" "?b ! 4 = l" "?b ! 5 = c"
    and k: "?b ! (length p + 6) = k"
    and tk: "take (length p + 6) ?b = [m0, m1, d, h, l, c] @ p"
    by (simp_all add: nth_append numeral_eq_Suc)
  have sub: "length p + 8 - 2 = length p + 6" and dr: "drop 2 ([m0, m1, d, h, l, c] @ p) = [d, h, l, c] @ p"
    and dr': "drop 6 ([m0, m1, d, h, l, c] @ p) = p" and le: "\<not> length p + 8 < 8"
    by simp_all
  show ?thesis
    unfolding decode_def len last nth FRAME_OVERHEAD_def Let_def sub k tk dr dr'
    by (simp only: le if_False)
qed

lemma len_field_eq: "len_field f = of_nat (length (payload f) + 6)"
  by (simp add: len_field_def wire_len_def FRAME_OVERHEAD_def)

lemma decode_encode [simp]: "decode (encode f) = Inr f"
  unfolding encode_eq by (subst decode_shape) (simp add: len_field_eq)

lemma encode_decode:
  assumes "decode bytes = Inr f"
  shows "encode f = bytes"
proof -
  have "FRAME_OVERHEAD \<le> length bytes"
    using assms by (simp add: decode_def split: if_splits)
  then obtain m0 m1 d h l c p k t where b: "bytes = [m0, m1, d, h, l, c] @ p @ [k, t]"
    by (rule frame_bytes_cases)
  from assms have "m0 = MAGIC0" "m1 = MAGIC1" "t = TERMINATOR"
    and l: "from_be16 h l = len_field f"
    and k: "k = checksum ([d, h, l, c] @ p)"
    and "dir_byte (dir f) = d" "cmd f = c" "payload f = p"
    unfolding b decode_shape
    by (auto simp: len_field_eq dir_from_byte_Some split: if_splits option.splits)
  then show ?thesis
    by (simp add: b encode_eq flip: l)
qed

interpretation frame_codec: strict_codec encode decode
  by unfold_locales (simp_all add: encode_decode)

section \<open>A corrupted byte is always noticed\<close>

lemma checksum_list_update:
  assumes "i < length xs"
  shows "checksum (xs[i := b]) = checksum xs - xs ! i + b"
proof -
  have "checksum xs = checksum (take i xs) + xs ! i + checksum (drop (Suc i) xs)"
    using assms by (subst id_take_nth_drop [of i xs]) (simp_all add: checksum_eq)
  moreover have "checksum (xs[i := b]) = checksum (take i xs) + b + checksum (drop (Suc i) xs)"
    using assms by (simp add: upd_conv_take_nth_drop checksum_eq)
  ultimately show ?thesis by simp
qed

lemma checksum_update_noticed:
  "i < length xs \<Longrightarrow> b \<noteq> xs ! i \<Longrightarrow> checksum xs \<noteq> checksum (xs[i := b])"
  by (simp add: checksum_list_update)

lemma six_cases: "(i :: nat) < 6 \<Longrightarrow> i = 0 \<or> i = 1 \<or> i = 2 \<or> i = 3 \<or> i = 4 \<or> i = 5"
  by arith

lemma corrupted_header:
  assumes "i < 6" and "b \<noteq> encode f ! i"
  shows "\<exists>e. decode ((encode f)[i := b]) = Inl e \<and>
    (if i < 2 then \<exists>x y. e = BadMagic x y
     else if i = 3 \<or> i = 4 then \<exists>x y. e = BadLength x y
     else \<exists>x y. e = BadChecksum x y)"
proof -
  let ?h = "ucast (drop_bit 8 (len_field f)) :: u8" and ?l = "ucast (len_field f) :: u8"
  let ?k = "checksum ([dir_byte (dir f), ?h, ?l, cmd f] @ payload f)"
  let ?mk = "\<lambda>m0 m1 d h l c. [m0, m1, d, h, l, c] @ payload f @ [?k, TERMINATOR]"
  note enc = encode_eq [of f]
  have len: "from_be16 h l = of_nat (length (payload f) + 6) \<longleftrightarrow> h = ?h \<and> l = ?l" for h l
    using from_be16_inject [of h l ?h ?l] by (simp add: len_field_eq)
  from six_cases [OF assms(1)] show ?thesis
  proof (elim disjE)
    assume i: "i = 0"
    then have "(encode f)[i := b] = ?mk b MAGIC1 (dir_byte (dir f)) ?h ?l (cmd f)" by (simp add: enc)
    moreover have "b \<noteq> MAGIC0" using assms(2) i by (simp add: enc)
    ultimately show ?thesis using i by (simp only: decode_shape) simp
  next
    assume i: "i = 1"
    then have "(encode f)[i := b] = ?mk MAGIC0 b (dir_byte (dir f)) ?h ?l (cmd f)" by (simp add: enc)
    moreover have "b \<noteq> MAGIC1" using assms(2) i by (simp add: enc)
    ultimately show ?thesis using i by (simp only: decode_shape) simp
  next
    assume i: "i = 2"
    then have "(encode f)[i := b] = ?mk MAGIC0 MAGIC1 b ?h ?l (cmd f)"
      by (simp add: enc numeral_eq_Suc)
    moreover have "b \<noteq> dir_byte (dir f)" using assms(2) i by (simp add: enc)
    ultimately show ?thesis using i by (simp only: decode_shape len) (simp add: checksum_eq)
  next
    assume i: "i = 3"
    then have "(encode f)[i := b] = ?mk MAGIC0 MAGIC1 (dir_byte (dir f)) b ?l (cmd f)"
      by (simp add: enc numeral_eq_Suc)
    moreover have "b \<noteq> ?h" using assms(2) i by (simp add: enc)
    ultimately show ?thesis using i by (simp only: decode_shape len) simp
  next
    assume i: "i = 4"
    then have "(encode f)[i := b] = ?mk MAGIC0 MAGIC1 (dir_byte (dir f)) ?h b (cmd f)"
      by (simp add: enc numeral_eq_Suc)
    moreover have "b \<noteq> ?l" using assms(2) i by (simp add: enc)
    ultimately show ?thesis using i by (simp only: decode_shape len) simp
  next
    assume i: "i = 5"
    then have "(encode f)[i := b] = ?mk MAGIC0 MAGIC1 (dir_byte (dir f)) ?h ?l b"
      by (simp add: enc numeral_eq_Suc)
    moreover have "b \<noteq> cmd f" using assms(2) i by (simp add: enc)
    ultimately show ?thesis using i by (simp only: decode_shape len) (simp add: checksum_eq)
  qed
qed

lemma corrupted_tail:
  assumes "6 \<le> i" and "i < wire_len f" and "b \<noteq> encode f ! i"
  shows "\<exists>e. decode ((encode f)[i := b]) = Inl e \<and>
    (if i = wire_len f - 1 then e = BadTerminator b else \<exists>x y. e = BadChecksum x y)"
proof -
  let ?hd = "[dir_byte (dir f), ucast (drop_bit 8 (len_field f)), ucast (len_field f), cmd f]"
  let ?k = "checksum (?hd @ payload f)"
  let ?mk = "\<lambda>p k t. [MAGIC0, MAGIC1, dir_byte (dir f), ucast (drop_bit 8 (len_field f)),
    ucast (len_field f), cmd f] @ p @ [k, t]"
  define j where "j = i - 6"
  have i: "i = j + 6" using assms(1) by (simp add: j_def)
  have enc: "encode f = ?mk (payload f) ?k TERMINATOR" by (rule encode_eq)
  have upd: "(encode f)[i := b] = [MAGIC0, MAGIC1, dir_byte (dir f),
      ucast (drop_bit 8 (len_field f)), ucast (len_field f), cmd f]
      @ (payload f @ [?k, TERMINATOR])[j := b]"
    by (simp add: enc i list_update_append numeral_eq_Suc)
  have nth: "encode f ! i = (payload f @ [?k, TERMINATOR]) ! j"
    by (simp add: enc i numeral_eq_Suc)
  have j: "j < length (payload f) + 2"
    using assms(2) by (simp add: i wire_len_def FRAME_OVERHEAD_def)
  consider "j < length (payload f)" | "j = length (payload f)" | "j = Suc (length (payload f))"
    using j by linarith
  then show ?thesis
  proof cases
    case 1
    then have "(encode f)[i := b] = ?mk ((payload f)[j := b]) ?k TERMINATOR"
      by (simp add: upd list_update_append1)
    moreover have "b \<noteq> payload f ! j" using assms(3) 1 by (simp add: nth nth_append)
    then have "?k \<noteq> checksum (?hd @ (payload f)[j := b])"
      using checksum_update_noticed [OF 1] by (simp only: checksum_append add_left_cancel simp_thms)
    moreover have "i \<noteq> wire_len f - 1" using 1 by (simp add: i wire_len_def FRAME_OVERHEAD_def)
    ultimately show ?thesis
      by (simp only: decode_shape) (simp add: len_field_eq)
  next
    case 2
    then have "(encode f)[i := b] = ?mk (payload f) b TERMINATOR"
      by (simp add: upd list_update_append)
    moreover have "b \<noteq> ?k" using assms(3) 2 by (simp add: nth)
    moreover have "i \<noteq> wire_len f - 1" using 2 by (simp add: i wire_len_def FRAME_OVERHEAD_def)
    ultimately show ?thesis
      by (simp only: decode_shape) (simp add: len_field_eq)
  next
    case 3
    then have "(encode f)[i := b] = ?mk (payload f) ?k b"
      by (simp add: upd list_update_append)
    moreover have "b \<noteq> TERMINATOR" using assms(3) 3 by (simp add: nth nth_append)
    moreover have "i = wire_len f - 1" using 3 by (simp add: i wire_len_def FRAME_OVERHEAD_def)
    ultimately show ?thesis
      by (simp only: decode_shape) (simp add: len_field_eq)
  qed
qed

section \<open>Hexadecimal text\<close>

lemma hex_loop_Suc: "hex_loop (Suc i) s bs = s @ concat (map (\<lambda>b. CHR '' '' # fmt_hex 2 (unat b)) bs)"
  by (induction bs arbitrary: i s) simp_all

lemma hex_eq:
  "hex (b # bs) = fmt_hex 2 (unat b) @ concat (map (\<lambda>b. CHR '' '' # fmt_hex 2 (unat b)) bs)"
  by (simp add: hex_def hex_loop_Suc)

lemma fmt_hex_byte_solid: "\<forall>c \<in> set (fmt_hex 2 (unat (b :: u8))). ascii_solid c"
proof -
  have "unat b div 16 < 16" by (rule less_mult_imp_div_less) simp
  then show ?thesis by (simp add: fmt_hex_two)
qed

lemma split_ws_hex:
  "split_ws cur (concat (map (\<lambda>b. CHR '' '' # fmt_hex 2 (unat b)) bs)) =
     cur # map (\<lambda>b. fmt_hex 2 (unat (b :: u8))) bs"
  by (induction bs arbitrary: cur) (simp_all add: split_ws_solid [OF fmt_hex_byte_solid])

lemma fmt_hex_two_not_Nil [simp]: "fmt_hex 2 (unat (b :: u8)) \<noteq> []"
  by (simp add: fmt_hex_two)

lemma split_whitespace_hex: "split_whitespace (hex bs) = map (\<lambda>b. fmt_hex 2 (unat b)) bs"
proof (cases bs)
  case Nil
  then show ?thesis by (simp add: split_whitespace_def hex_def)
next
  case (Cons b bs')
  then show ?thesis
    by (simp add: split_whitespace_def hex_eq split_ws_solid [OF fmt_hex_byte_solid] split_ws_hex)
qed

lemma unhex_tokens_hex: "unhex_tokens (map (\<lambda>b. fmt_hex 2 (unat b)) bs) = Inr bs"
  by (induction bs) (simp_all add: from_str_radix_fmt_hex_two)

interpretation hex_codec: codec hex unhex
  by unfold_locales (simp add: unhex_def split_whitespace_hex unhex_tokens_hex)

section \<open>Properties\<close>

text \<open>C16: the codec is strict. \<open>decode\<close> succeeds on exactly the byte strings
  \<open>encode\<close> produces and returns the frame that was encoded: nothing is lost in
  either direction and no second byte string reads as the same frame.\<close>

theorem decode_accepts_exactly_encodings: "decode bytes = Inr f \<longleftrightarrow> bytes = encode f"
  by (rule frame_codec.dec_iff)

text \<open>C32: a frame with any one byte changed in transit is refused, and the error names the
  part that is wrong: the preamble, the \<open>LEN\<close> field, the terminator, or (for the
  direction, command, payload and checksum bytes) the checksum.\<close>

theorem corrupted_byte_detected:
  assumes "i < wire_len f" and "b \<noteq> encode f ! i"
  shows "\<exists>e. decode ((encode f)[i := b]) = Inl e \<and>
    (if i < 2 then \<exists>x y. e = BadMagic x y
     else if i = 3 \<or> i = 4 then \<exists>x y. e = BadLength x y
     else if i = wire_len f - 1 then e = BadTerminator b
     else \<exists>x y. e = BadChecksum x y)"
proof (cases "i < 6")
  case True
  moreover have "7 \<le> wire_len f - 1" by (simp add: wire_len_def FRAME_OVERHEAD_def)
  ultimately show ?thesis using corrupted_header [OF True assms(2)] by auto
next
  case False
  then show ?thesis using corrupted_tail [OF _ assms] by auto
qed

theorem corrupted_byte_detected_witness:
  "\<exists>e. decode ((encode (frame_mcu 0x80 [0xEE]))[6 := 0xEF]) = Inl e \<and>
    (if (6::nat) < 2 then \<exists>x y. e = BadMagic x y
     else if (6::nat) = 3 \<or> (6::nat) = 4 then \<exists>x y. e = BadLength x y
     else if (6::nat) = wire_len (frame_mcu 0x80 [0xEE]) - 1 then e = BadTerminator 0xEF
     else \<exists>x y. e = BadChecksum x y)"
  by (rule corrupted_byte_detected)
    (simp_all add: wire_len_def FRAME_OVERHEAD_def frame_mcu_def encode_eq)

text \<open>a reply that echoes a request differs from it on the wire in two bytes only: the
  direction byte, and the checksum, which is smaller by exactly two.\<close>

lemma echo_differs_in_two_bytes:
  assumes "is_echo_of reply req"
  shows "encode reply =
    (encode req)[2 := DIR_MCU_TO_HOST, wire_len req - 2 := encode req ! (wire_len req - 2) - 2]"
proof -
  let ?hl = "[ucast (drop_bit 8 (len_field req)), ucast (len_field req), cmd req] :: u8 list"
  from assms have "len_field reply = len_field req" "cmd reply = cmd req" "payload reply = payload req"
    and d: "dir reply = McuToHost" "dir req = HostToMcu"
    by (simp_all add: is_echo_of_def len_field_def wire_len_def)
  then have rep: "encode reply = [MAGIC0, MAGIC1, DIR_MCU_TO_HOST] @ ?hl @ payload req
      @ [checksum ([DIR_MCU_TO_HOST] @ ?hl @ payload req), TERMINATOR]"
    by (simp add: encode_eq)
  have req: "encode req = [MAGIC0, MAGIC1, DIR_HOST_TO_MCU] @ ?hl @ payload req
      @ [checksum ([DIR_HOST_TO_MCU] @ ?hl @ payload req), TERMINATOR]"
    by (simp add: encode_eq d)
  have w: "wire_len req - 2 = 6 + length (payload req)"
    by (simp add: wire_len_def FRAME_OVERHEAD_def)
  have nth: "encode req ! (6 + length (payload req)) = checksum ([DIR_HOST_TO_MCU] @ ?hl @ payload req)"
    unfolding req by (simp add: nth_append)
  have ck: "checksum ([DIR_MCU_TO_HOST] @ xs) = checksum ([DIR_HOST_TO_MCU] @ xs) - 2" for xs
    by (simp add: checksum_eq frame_consts)
  show ?thesis
    unfolding w nth ck [symmetric] rep unfolding req
    by (simp add: list_update_append numeral_eq_Suc)
qed

text \<open>hexadecimal text round trips: reading back what \<open>hex\<close> printed gives the same bytes.\<close>

lemma unhex_reads_hex: "unhex (hex bytes) = Inr bytes"
  by (rule hex_codec.dec_enc)

end
