(* ===== verification/Frame_Source.thy ===== *)
theory Frame_Source imports Prelude begin

text \<open>
  The driver's view of a receiver, as a contract. The driver feeds bytes, asks
  for the next result until there is none (\<open>while let Some(result) =
  rx.next_frame()\<close> in \<open>src/src/driver.rs\<close>), and reads off what was thrown away.
  \<open>drains\<close> is that loop as a relation. The locale \<open>frame_source\<close> states what the
  loop relies on and derives that it ends, that it is deterministic, that no byte
  is lost, and that feeding more bytes only extends what it returns.
\<close>

inductive drains :: "('r \<Rightarrow> 'x option \<times> 'r) \<Rightarrow> 'r \<Rightarrow> 'x list \<Rightarrow> 'r \<Rightarrow> bool" for pull where
  drains_stop: "pull r = (None, r') \<Longrightarrow> drains pull r [] r'"
| drains_more: "pull r = (Some x, r') \<Longrightarrow> drains pull r' xs r'' \<Longrightarrow> drains pull r (x # xs) r''"

inductive_simps drains_Nil [simp]: "drains pull r [] r'"
inductive_simps drains_Cons [simp]: "drains pull r (x # xs) r'"

locale frame_source =
  fixes pull :: "'r \<Rightarrow> 'x option \<times> 'r"
    and give :: "'b list \<Rightarrow> 'r \<Rightarrow> 'r"
    and held :: "'r \<Rightarrow> 'b list"
    and dropped :: "'r \<Rightarrow> 'b list"
    and emit :: "'x \<Rightarrow> 'b list"
  assumes held_give: "held (give bs r) = held r @ bs"
    and dropped_give: "dropped (give bs r) = dropped r"
    and pull_none: "pull r = (None, r') \<Longrightarrow> dropped r' @ held r' = dropped r @ held r"
    and pull_some: "pull r = (Some x, r') \<Longrightarrow> dropped r' @ emit x @ held r' = dropped r @ held r"
    and pull_shrinks: "pull r = (Some x, r') \<Longrightarrow> length (held r') < length (held r)"
    and pull_give_some: "pull r = (Some x, r') \<Longrightarrow> pull (give bs r) = (Some x, give bs r')"
    and pull_give_none: "pull r = (None, r') \<Longrightarrow> pull (give bs r) = pull (give bs r')"
begin

lemma drains_exists: "\<exists>xs r'. drains pull r xs r'"
proof (induction "length (held r)" arbitrary: r rule: less_induct)
  case less
  show ?case
  proof (cases "pull r")
    case (Pair res r1)
    show ?thesis
    proof (cases res)
      case None
      with Pair show ?thesis by (blast intro: drains_stop)
    next
      case (Some x)
      with Pair have "length (held r1) < length (held r)" by (blast intro: pull_shrinks)
      with less obtain xs r' where "drains pull r1 xs r'" by blast
      with Pair Some show ?thesis by (blast intro: drains_more)
    qed
  qed
qed

lemma drains_deterministic:
  "drains pull r xs r' \<Longrightarrow> drains pull r ys r'' \<Longrightarrow> xs = ys \<and> r' = r''"
proof (induction arbitrary: ys rule: drains.induct)
  case (drains_stop r r')
  then show ?case by (cases ys) auto
next
  case (drains_more r x r' xs r1)
  then show ?case by (cases ys) auto
qed

lemma drains_bound: "drains pull r xs r' \<Longrightarrow> length xs \<le> length (held r)"
  by (induction rule: drains.induct) (auto dest: pull_shrinks)

lemma drains_account:
  "drains pull r xs r' \<Longrightarrow>
     length (dropped r') + length (concat (map emit xs)) + length (held r')
       = length (dropped r) + length (held r)"
proof (induction rule: drains.induct)
  case (drains_stop r r')
  then show ?case using pull_none [of r r'] by (metis add_0_right concat.simps(1) length_append list.map(1) list.size(3))
next
  case (drains_more r x r' xs r1)
  from pull_some [OF drains_more.hyps(1)]
  have "length (dropped r') + (length (emit x) + length (held r')) = length (dropped r) + length (held r)"
    by (metis length_append)
  with drains_more.IH show ?case by simp
qed

lemma drains_give:
  "drains pull r xs r' \<Longrightarrow> drains pull (give bs r') ys r'' \<Longrightarrow> drains pull (give bs r) (xs @ ys) r''"
proof (induction rule: drains.induct)
  case (drains_stop r r')
  then have "pull (give bs r) = pull (give bs r')" by (blast intro: pull_give_none)
  with drains_stop.prems show ?case by (cases ys) auto
next
  case (drains_more r x r' xs r1)
  from drains_more.hyps(1) have "pull (give bs r) = (Some x, give bs r')" by (rule pull_give_some)
  with drains_more show ?case by simp
qed

end

end
