(* ===== verification/Receiver.thy ===== *)
theory Receiver imports Frame Frame_Source begin

text \<open>
  The resynchronising receiver of \<open>src/src/frame.rs\<close>: its two buffers, \<open>feed\<close>, the
  hunt for a preamble and \<open>next_frame\<close>, written as the two nested loops of the
  code. \<open>scan\<close> is the abstract decision the loops implement (what the first
  bytes of a buffer mean), and \<open>next_frame_scan\<close> the refinement; from it follow
  byte conservation, the bound on the buffer, independence of how the bytes were
  chunked, and resynchronisation behind noise. The driver's view of the receiver
  is the locale \<open>frame_source\<close>, interpreted here.
\<close>

section \<open>State and operations\<close>

record receiver =
  buf :: "u8 list"
  discarded :: "u8 list"

datatype hunt_result = NeedMore | Advanced | HuntFrame nat

definition receiver_new :: receiver where
  "receiver_new = \<lparr>buf = [], discarded = []\<rparr>"

definition feed :: "u8 list \<Rightarrow> receiver \<Rightarrow> receiver" where
  "feed bytes r = r\<lparr>buf := buf r @ bytes\<rparr>"

definition take_discarded :: "receiver \<Rightarrow> u8 list \<times> receiver" where
  "take_discarded r = (discarded r, r\<lparr>discarded := []\<rparr>)"

definition discarded_len :: "receiver \<Rightarrow> nat" where
  "discarded_len r = length (discarded r)"

definition pending :: "receiver \<Rightarrow> nat" where
  "pending r = length (buf r)"

text \<open>\<open>self.discarded.push(self.buf.remove(0))\<close>\<close>

definition discard_first :: "receiver \<Rightarrow> receiver" where
  "discard_first r = \<lparr>buf = tl (buf r), discarded = discarded r @ [hd (buf r)]\<rparr>"

function hunt :: "receiver \<Rightarrow> hunt_result \<times> receiver" where
  "hunt r =
     (if buf r = [] then (NeedMore, r)
      else if buf r ! 0 \<noteq> MAGIC0 then hunt (discard_first r)
      else if length (buf r) < 2 then (NeedMore, r)
      else if buf r ! 1 \<noteq> MAGIC1 then hunt (discard_first r)
      else if length (buf r) < 5 then (NeedMore, r)
      else let declared = from_be16 (buf r ! 3) (buf r ! 4)
           in if \<not> (MIN_LEN_FIELD \<le> declared \<and> declared \<le> MAX_LEN_FIELD)
              then (Advanced, discard_first r)
              else let n = unat declared + 2
                   in if length (buf r) < n then (NeedMore, r) else (HuntFrame n, r))"
  by pat_completeness auto
termination
  by (relation "measure (\<lambda>r. length (buf r))") (auto simp: discard_first_def)

declare hunt.simps [simp del]

lemma hunt_shrinks:
  "hunt r = (h, r') \<Longrightarrow>
     length (buf r') \<le> length (buf r) \<and> (h = Advanced \<longrightarrow> length (buf r') < length (buf r))"
proof (induction r arbitrary: h r' rule: hunt.induct)
  case (1 r)
  show ?case
  proof (cases "buf r \<noteq> [] \<and> (buf r ! 0 \<noteq> MAGIC0 \<or> 2 \<le> length (buf r) \<and> buf r ! 1 \<noteq> MAGIC1)")
    case True
    then have "hunt r = hunt (discard_first r)" by (subst hunt.simps) auto
    with 1 True have "length (buf r') \<le> length (buf (discard_first r))
        \<and> (h = Advanced \<longrightarrow> length (buf r') < length (buf (discard_first r)))"
      by (cases "buf r ! 0 = MAGIC0") auto
    then show ?thesis by (auto simp: discard_first_def)
  next
    case False
    with "1.prems" show ?thesis
      by (subst (asm) hunt.simps) (auto simp: discard_first_def Let_def split: if_splits)
  qed
qed

function next_frame :: "receiver \<Rightarrow> (frame_error + frame) option \<times> receiver" where
  "next_frame r =
     (case hunt r of
        (NeedMore, r') \<Rightarrow> (None, r')
      | (Advanced, r') \<Rightarrow> next_frame r'
      | (HuntFrame n, r') \<Rightarrow>
          let bytes = take n (buf r'); rest = drop n (buf r')
          in case decode bytes of
               Inr f \<Rightarrow> (Some (Inr f), r'\<lparr>buf := rest\<rparr>)
             | Inl e \<Rightarrow>
                 (Some (Inl e),
                  \<lparr>buf = tl bytes @ rest, discarded = discarded r' @ [hd bytes]\<rparr>))"
  by pat_completeness auto
termination
  by (relation "measure (\<lambda>r. length (buf r))") (auto dest: hunt_shrinks [OF sym])

declare next_frame.simps [simp del]

section \<open>The abstract decision\<close>

text \<open>
  What the bytes at the front of a buffer mean: more are needed, the first is
  noise, a frame-shaped run that fails validation starts here, or a frame does.
\<close>

datatype scan_result = ScanMore | ScanSkip | ScanBad frame_error | ScanFrame frame

definition declared_len :: "u8 list \<Rightarrow> u16" where
  "declared_len bs = from_be16 (bs ! 3) (bs ! 4)"

definition plausible_len :: "u16 \<Rightarrow> bool" where
  "plausible_len l \<longleftrightarrow> MIN_LEN_FIELD \<le> l \<and> l \<le> MAX_LEN_FIELD"

definition declared_span :: "u8 list \<Rightarrow> nat" where
  "declared_span bs = unat (declared_len bs) + 2"

definition scan :: "u8 list \<Rightarrow> scan_result" where
  "scan bs =
     (if bs = [] then ScanMore
      else if bs ! 0 \<noteq> MAGIC0 then ScanSkip
      else if length bs < 2 then ScanMore
      else if bs ! 1 \<noteq> MAGIC1 then ScanSkip
      else if length bs < 5 then ScanMore
      else if \<not> plausible_len (declared_len bs) then ScanSkip
      else if length bs < declared_span bs then ScanMore
      else (case decode (take (declared_span bs) bs) of
              Inl e \<Rightarrow> ScanBad e
            | Inr f \<Rightarrow> ScanFrame f))"

lemma scan_Nil [simp]: "scan [] = ScanMore"
  by (simp add: scan_def)

lemma declared_append [simp]:
  "5 \<le> length bs \<Longrightarrow> declared_len (bs @ xs) = declared_len bs"
  "5 \<le> length bs \<Longrightarrow> declared_span (bs @ xs) = declared_span bs"
  by (simp_all add: declared_len_def declared_span_def nth_append)

text \<open>A decision once taken does not change when more bytes arrive.\<close>

lemma scan_append:
  assumes "scan bs \<noteq> ScanMore"
  shows "scan (bs @ xs) = scan bs"
proof -
  have "bs \<noteq> []" using assms by auto
  then have n0: "(bs @ xs) ! 0 = bs ! 0" by (simp add: nth_append)
  show ?thesis
  proof (cases "bs ! 0 \<noteq> MAGIC0")
    case True
    with n0 \<open>bs \<noteq> []\<close> show ?thesis by (simp add: scan_def)
  next
    case False
    with assms \<open>bs \<noteq> []\<close> have l2: "2 \<le> length bs" by (auto simp: scan_def split: if_splits)
    then have n1: "(bs @ xs) ! 1 = bs ! 1" by (simp add: nth_append)
    show ?thesis
    proof (cases "bs ! 1 \<noteq> MAGIC1")
      case True
      with False l2 n0 n1 \<open>bs \<noteq> []\<close> show ?thesis by (simp add: scan_def)
    next
      case magic: False
      with assms False l2 have l5: "5 \<le> length bs" by (auto simp: scan_def split: if_splits)
      moreover from assms False magic l2 l5
      have "\<not> plausible_len (declared_len bs) \<or> declared_span bs \<le> length bs"
        by (auto simp: scan_def split: if_splits)
      ultimately show ?thesis
        using n0 n1 \<open>bs \<noteq> []\<close> False magic by (elim disjE) (simp_all add: scan_def)
    qed
  qed
qed

text \<open>What a buffer looks like when the hunt stops at a declared span.\<close>

lemma scan_span:
  assumes "scan bs = ScanFrame f \<or> scan bs = ScanBad e"
  shows "bs \<noteq> []" and "bs ! 0 = MAGIC0" and "bs ! 1 = MAGIC1"
    and "plausible_len (declared_len bs)" and "declared_span bs \<le> length bs"
    and "scan bs = ScanFrame f \<Longrightarrow> decode (take (declared_span bs) bs) = Inr f"
    and "scan bs = ScanBad e \<Longrightarrow> decode (take (declared_span bs) bs) = Inl e"
  using assms by (auto simp: scan_def split: if_splits sum.splits)

lemma scan_more_length:
  assumes "scan bs = ScanMore"
  shows "length bs < 5 \<or> plausible_len (declared_len bs) \<and> length bs < declared_span bs"
  using assms by (auto simp: scan_def split: if_splits sum.splits)

lemma decode_length: "decode bytes = Inr f \<Longrightarrow> length bytes = wire_len f"
  using encode_decode [of bytes f] length_encode [of f] by simp

lemma scan_frame_prefix:
  assumes "scan bs = ScanFrame f"
  shows "bs = encode f @ drop (wire_len f) bs"
proof -
  let ?n = "declared_span bs"
  have d: "decode (take ?n bs) = Inr f" using assms scan_span(6) by blast
  have n: "?n \<le> length bs" using assms scan_span(5) by blast
  have e: "encode f = take ?n bs" by (rule encode_decode [OF d])
  have w: "wire_len f = ?n" using decode_length [OF d] n by simp
  show ?thesis unfolding e w by simp
qed

lemma scan_frame_bounds:
  assumes "scan bs = ScanFrame f"
  shows "FRAME_OVERHEAD \<le> wire_len f" and "wire_len f \<le> length bs"
proof -
  show "FRAME_OVERHEAD \<le> wire_len f" by (simp add: wire_len_def)
  show "wire_len f \<le> length bs"
    using arg_cong [OF scan_frame_prefix [OF assms], of length] by simp
qed

section \<open>The loops implement the decision\<close>

lemma hunt_eq:
  "hunt r =
     (if buf r = [] then (NeedMore, r)
      else if buf r ! 0 \<noteq> MAGIC0 then hunt (discard_first r)
      else if length (buf r) < 2 then (NeedMore, r)
      else if buf r ! 1 \<noteq> MAGIC1 then hunt (discard_first r)
      else if length (buf r) < 5 then (NeedMore, r)
      else if \<not> plausible_len (declared_len (buf r)) then (Advanced, discard_first r)
      else if length (buf r) < declared_span (buf r) then (NeedMore, r)
      else (HuntFrame (declared_span (buf r)), r))"
  by (subst hunt.simps) (simp only: Let_def declared_len_def declared_span_def plausible_len_def)

lemma hunt_more: "scan (buf r) = ScanMore \<Longrightarrow> hunt r = (NeedMore, r)"
  by (subst hunt_eq) (auto simp: scan_def split: if_splits sum.splits)

lemma scan_skip_cases:
  assumes "scan bs = ScanSkip"
  obtains "bs \<noteq> []" "bs ! 0 \<noteq> MAGIC0"
  | "bs ! 0 = MAGIC0" "2 \<le> length bs" "bs ! 1 \<noteq> MAGIC1"
  | "bs ! 0 = MAGIC0" "bs ! 1 = MAGIC1" "5 \<le> length bs" "\<not> plausible_len (declared_len bs)"
  using assms by (simp add: scan_def not_less split: if_splits sum.splits)

lemma hunt_skip:
  assumes "scan (buf r) = ScanSkip"
  shows "hunt r = (Advanced, discard_first r) \<or> hunt r = hunt (discard_first r)"
  using assms
proof (cases rule: scan_skip_cases)
  case 1
  then have "hunt r = hunt (discard_first r)" by (subst hunt_eq) (simp only: if_False if_True simp_thms)
  then show ?thesis ..
next
  case 2
  then have "hunt r = hunt (discard_first r)" by (subst hunt_eq) auto
  then show ?thesis ..
next
  case 3
  then have "hunt r = (Advanced, discard_first r)" by (subst hunt_eq) auto
  then show ?thesis ..
qed

lemma hunt_span:
  "scan (buf r) = ScanFrame f \<or> scan (buf r) = ScanBad e \<Longrightarrow>
     hunt r = (HuntFrame (declared_span (buf r)), r)"
  by (subst hunt_eq) (auto simp: scan_def split: if_splits sum.splits)

lemma next_frame_skip: "scan (buf r) = ScanSkip \<Longrightarrow> next_frame r = next_frame (discard_first r)"
proof (drule hunt_skip, elim disjE)
  assume "hunt r = (Advanced, discard_first r)"
  then show ?thesis by (simp add: next_frame.simps [of r])
next
  assume "hunt r = hunt (discard_first r)"
  then show ?thesis by (simp add: next_frame.simps [of r] next_frame.simps [of "discard_first r"])
qed

text \<open>\<open>next_frame\<close> as one loop over \<open>scan\<close>.\<close>

lemma next_frame_scan:
  "next_frame r =
     (case scan (buf r) of
        ScanMore \<Rightarrow> (None, r)
      | ScanSkip \<Rightarrow> next_frame (discard_first r)
      | ScanBad e \<Rightarrow> (Some (Inl e), discard_first r)
      | ScanFrame f \<Rightarrow> (Some (Inr f), r\<lparr>buf := drop (wire_len f) (buf r)\<rparr>))"
proof (cases "scan (buf r)")
  case ScanMore
  then show ?thesis by (simp add: next_frame.simps [of r] hunt_more)
next
  case ScanSkip
  then show ?thesis by (simp add: next_frame_skip)
next
  case (ScanBad e)
  let ?n = "declared_span (buf r)"
  have n: "0 < ?n" by (simp add: declared_span_def)
  have "tl (take ?n (buf r)) @ drop ?n (buf r) = tl (buf r)" and "hd (take ?n (buf r)) = hd (buf r)"
    using n by (cases "buf r"; cases ?n; simp)+
  moreover have "decode (take ?n (buf r)) = Inl e" using ScanBad scan_span(7) by blast
  moreover have "hunt r = (HuntFrame ?n, r)" using ScanBad by (intro hunt_span) simp
  ultimately show ?thesis
    using ScanBad by (simp add: next_frame.simps [of r] Let_def discard_first_def)
next
  case (ScanFrame f)
  let ?n = "declared_span (buf r)"
  have d: "decode (take ?n (buf r)) = Inr f" using ScanFrame scan_span(6) by blast
  moreover have "?n = wire_len f"
    using decode_length [OF d] scan_span(5) [of "buf r" f] ScanFrame by simp
  moreover have "hunt r = (HuntFrame ?n, r)" using ScanFrame by (intro hunt_span) simp
  ultimately show ?thesis
    using ScanFrame by (simp add: next_frame.simps [of r] Let_def)
qed

section \<open>One result\<close>

text \<open>Induction over the bytes a call of \<open>next_frame\<close> looks at.\<close>

lemma next_frame_induct [case_names step]:
  assumes "\<And>r. (scan (buf r) = ScanSkip \<Longrightarrow> P (discard_first r)) \<Longrightarrow> P r"
  shows "P r"
proof (induction "length (buf r)" arbitrary: r rule: less_induct)
  case less
  show ?case
  proof (rule assms)
    assume "scan (buf r) = ScanSkip"
    then have "buf r \<noteq> []" by auto
    then have "length (buf (discard_first r)) < length (buf r)" by (simp add: discard_first_def)
    then show "P (discard_first r)" by (rule less)
  qed
qed

lemma discard_first_bytes:
  "buf r \<noteq> [] \<Longrightarrow> discarded (discard_first r) @ buf (discard_first r) = discarded r @ buf r"
  by (simp add: discard_first_def)

definition emitted :: "frame_error + frame \<Rightarrow> u8 list" where
  "emitted x = (case x of Inl e \<Rightarrow> [] | Inr f \<Rightarrow> encode f)"

lemma emitted_simps [simp]: "emitted (Inl e) = []" "emitted (Inr f) = encode f"
  by (simp_all add: emitted_def)

lemma next_frame_bytes:
  "next_frame r = (res, r') \<Longrightarrow>
     discarded r' @ (case res of None \<Rightarrow> [] | Some x \<Rightarrow> emitted x) @ buf r' = discarded r @ buf r"
proof (induction r rule: next_frame_induct)
  case (step r)
  note eq = step.prems [unfolded next_frame_scan [of r]]
  show ?case
  proof (cases "scan (buf r)")
    case ScanMore
    with eq show ?thesis by auto
  next
    case ScanSkip
    then have "buf r \<noteq> []" by auto
    with ScanSkip eq step.IH show ?thesis by (simp add: discard_first_bytes)
  next
    case (ScanBad e)
    then have "buf r \<noteq> []" by auto
    with ScanBad eq show ?thesis using discard_first_bytes [of r] by auto
  next
    case (ScanFrame f)
    with eq show ?thesis using scan_frame_prefix [OF ScanFrame] by auto
  qed
qed

lemma next_frame_shrinks: "next_frame r = (Some x, r') \<Longrightarrow> length (buf r') < length (buf r)"
proof (induction r rule: next_frame_induct)
  case (step r)
  note eq = step.prems [unfolded next_frame_scan [of r]]
  show ?case
  proof (cases "scan (buf r)")
    case ScanMore
    with eq show ?thesis by simp
  next
    case ScanSkip
    then have "buf r \<noteq> []" by auto
    moreover from ScanSkip eq step.IH have "length (buf r') < length (buf (discard_first r))" by simp
    ultimately show ?thesis by (simp add: discard_first_def)
  next
    case (ScanBad e)
    then have "buf r \<noteq> []" by auto
    with ScanBad eq show ?thesis by (auto simp: discard_first_def)
  next
    case (ScanFrame f)
    with eq scan_frame_bounds [OF ScanFrame] show ?thesis by (auto simp: FRAME_OVERHEAD_def)
  qed
qed

lemma discard_first_feed:
  "buf r \<noteq> [] \<Longrightarrow> discard_first (feed bs r) = feed bs (discard_first r)"
  by (cases r) (simp add: discard_first_def feed_def)

lemma next_frame_feed_some:
  "next_frame r = (Some x, r') \<Longrightarrow> next_frame (feed bs r) = (Some x, feed bs r')"
proof (induction r rule: next_frame_induct)
  case (step r)
  note eq = step.prems [unfolded next_frame_scan [of r]]
  have ne: "scan (buf r) \<noteq> ScanMore" using eq by (auto split: scan_result.splits)
  then have sc: "scan (buf (feed bs r)) = scan (buf r)" and bne: "buf r \<noteq> []"
    using scan_append [of "buf r" bs] by (auto simp: feed_def)
  note unf = next_frame_scan [of "feed bs r", unfolded sc]
  show ?case
  proof (cases "scan (buf r)")
    case ScanSkip
    with eq step.IH show ?thesis by (simp add: unf discard_first_feed bne)
  next
    case (ScanBad e)
    with eq show ?thesis by (auto simp: unf discard_first_feed bne)
  next
    case (ScanFrame f)
    with eq scan_frame_bounds(2) [OF ScanFrame] show ?thesis
      unfolding unf by (auto simp: feed_def)
  qed (use ne in simp)
qed

lemma next_frame_feed_none:
  "next_frame r = (None, r') \<Longrightarrow> next_frame (feed bs r) = next_frame (feed bs r')"
proof (induction r rule: next_frame_induct)
  case (step r)
  note eq = step.prems [unfolded next_frame_scan [of r]]
  show ?case
  proof (cases "scan (buf r)")
    case ScanMore
    with eq show ?thesis by simp
  next
    case ScanSkip
    then have bne: "buf r \<noteq> []" by auto
    have "scan (buf (feed bs r)) = ScanSkip"
      using scan_append [of "buf r" bs] ScanSkip by (simp add: feed_def)
    then have "next_frame (feed bs r) = next_frame (feed bs (discard_first r))"
      by (simp add: next_frame_skip discard_first_feed bne)
    with ScanSkip eq step.IH show ?thesis by simp
  qed (use eq in auto)
qed

interpretation rx: frame_source next_frame feed buf discarded emitted
proof unfold_locales
  show "discarded r' @ buf r' = discarded r @ buf r" if "next_frame r = (None, r')" for r r'
    using next_frame_bytes [OF that] by simp
  show "discarded r' @ emitted x @ buf r' = discarded r @ buf r"
    if "next_frame r = (Some x, r')" for r x r'
    using next_frame_bytes [OF that] by simp
qed (simp_all add: feed_def next_frame_shrinks next_frame_feed_some [unfolded feed_def]
      next_frame_feed_none [unfolded feed_def])

section \<open>Draining\<close>

text \<open>
  The loop \<open>while let Some(result) = rx.next_frame()\<close> as a function, and a wire
  read chunk by chunk with a drain after every read, as the driver does it.
\<close>

function drain :: "receiver \<Rightarrow> (frame_error + frame) list \<times> receiver" where
  "drain r =
     (case next_frame r of
        (None, r') \<Rightarrow> ([], r')
      | (Some x, r') \<Rightarrow> (case drain r' of (xs, r'') \<Rightarrow> (x # xs, r'')))"
  by pat_completeness auto
termination
  by (relation "measure (\<lambda>r. length (buf r))") (auto dest: next_frame_shrinks [OF sym])

declare drain.simps [simp del]

primrec drain_chunks :: "receiver \<Rightarrow> u8 list list \<Rightarrow> (frame_error + frame) list \<times> receiver" where
  "drain_chunks r [] = ([], r)"
| "drain_chunks r (c # cs) =
     (case drain (feed c r) of
        (xs, r') \<Rightarrow> (case drain_chunks r' cs of (ys, r'') \<Rightarrow> (xs @ ys, r'')))"

lemma drain_drains: "drains next_frame r (fst (drain r)) (snd (drain r))"
proof (induction r rule: drain.induct)
  case (1 r)
  show ?case
    by (subst (1 2) drain.simps)
      (use 1 in \<open>auto split: prod.splits option.splits\<close>)
qed

lemma drain_iff: "drain r = (xs, r') \<longleftrightarrow> drains next_frame r xs r'"
  using drain_drains [of r] rx.drains_deterministic by (metis fst_conv snd_conv surj_pair)

lemma next_frame_idle: "next_frame r = (None, r') \<Longrightarrow> scan (buf r') = ScanMore"
proof (induction r rule: next_frame_induct)
  case (step r)
  then show ?case
    by (subst (asm) (2) next_frame_scan) (auto split: scan_result.splits)
qed

lemma drain_idle: "drains next_frame r xs r' \<Longrightarrow> scan (buf r') = ScanMore"
  by (induction rule: drains.induct) (auto dest: next_frame_idle)

lemma idle_drains: "scan (buf r) = ScanMore \<Longrightarrow> drains next_frame r [] r"
  by (simp add: next_frame_scan)

lemma feed_feed [simp]: "feed ys (feed xs r) = feed (xs @ ys) r"
  by (simp add: feed_def)

lemma drain_chunks_idle:
  "scan (buf r) = ScanMore \<Longrightarrow> drain_chunks r cs = drain (feed (concat cs) r)"
proof (induction cs arbitrary: r)
  case Nil
  then show ?case by (simp add: feed_def drain_iff [THEN iffD2, OF idle_drains])
next
  case (Cons c cs)
  obtain xs r1 where d1: "drain (feed c r) = (xs, r1)" by fastforce
  then have c1: "drains next_frame (feed c r) xs r1" by (simp add: drain_iff)
  then have "scan (buf r1) = ScanMore" by (rule drain_idle)
  then have "drain_chunks r1 cs = drain (feed (concat cs) r1)" by (rule Cons.IH)
  moreover obtain ys r2 where d2: "drain (feed (concat cs) r1) = (ys, r2)" by fastforce
  moreover have "drains next_frame (feed (concat cs) (feed c r)) (xs @ ys) r2"
    using c1 d2 by (intro rx.drains_give) (simp_all add: drain_iff)
  ultimately show ?case by (simp add: d1 drain_iff [THEN iffD2])
qed

section \<open>Resynchronisation\<close>

text \<open>A frame the receiver accepts: its \<open>LEN\<close> is within \<open>MAX_LEN_FIELD\<close>.\<close>

definition receivable :: "frame \<Rightarrow> bool" where
  "receivable f \<longleftrightarrow> length (payload f) \<le> 1018"

fun has_magic :: "u8 list \<Rightarrow> bool" where
  "has_magic (a # b # xs) \<longleftrightarrow> a = MAGIC0 \<and> b = MAGIC1 \<or> has_magic (b # xs)"
| "has_magic _ \<longleftrightarrow> False"

lemma unat_len_field: "receivable f \<Longrightarrow> unat (len_field f) = length (payload f) + 6"
  unfolding len_field_eq by (rule unat_of_nat_u16) (simp add: receivable_def)

lemma declared_encode: "declared_len (encode f @ xs) = len_field f"
  by (simp add: declared_len_def encode_eq)

lemma scan_encode:
  assumes "receivable f"
  shows "scan (encode f @ xs) = ScanFrame f"
proof -
  have u: "unat (len_field f) = length (payload f) + 6" using assms by (rule unat_len_field)
  then have "plausible_len (declared_len (encode f @ xs))"
    using assms by (simp add: declared_encode plausible_len_def word_le_nat_alt frame_consts receivable_def)
  moreover have "declared_span (encode f @ xs) = wire_len f"
    by (simp add: declared_span_def declared_encode u wire_len_def FRAME_OVERHEAD_def)
  moreover have "(encode f @ xs) ! 0 = MAGIC0" "(encode f @ xs) ! 1 = MAGIC1" "encode f \<noteq> []"
    by (simp_all add: encode_eq)
  ultimately show ?thesis
    by (simp add: scan_def wire_len_def FRAME_OVERHEAD_def)
qed

lemma scan_noise:
  assumes "\<not> has_magic (a # as)" and "hd (as @ bs) \<noteq> MAGIC1 \<or> as \<noteq> []" and "as @ bs \<noteq> []"
  shows "scan ((a # as) @ bs) = ScanSkip"
  using assms by (cases as; cases bs) (auto simp: scan_def)

lemma next_frame_noise:
  assumes "\<not> has_magic noise" and "receivable f"
  shows "next_frame \<lparr>buf = noise @ encode f @ xs, discarded = ds\<rparr> =
           (Some (Inr f), \<lparr>buf = xs, discarded = ds @ noise\<rparr>)"
  using assms
proof (induction noise arbitrary: ds)
  case Nil
  then show ?case by (simp add: next_frame_scan scan_encode)
next
  case (Cons a as)
  have "hd (encode f @ xs) \<noteq> MAGIC1" by (simp add: encode_eq frame_consts)
  moreover have "encode f \<noteq> []" by (simp add: encode_eq)
  ultimately have "scan ((a # as) @ encode f @ xs) = ScanSkip"
    using Cons.prems(1) by (intro scan_noise) auto
  moreover have "\<not> has_magic as" using Cons.prems(1) by (cases as) auto
  ultimately show ?case
    using Cons.IH [of "ds @ [a]"] Cons.prems(2) by (simp add: next_frame_scan discard_first_def)
qed

lemma scan_only_noise: "\<not> has_magic (a # as) \<Longrightarrow> as \<noteq> [] \<Longrightarrow> scan (a # as) = ScanSkip"
  using scan_noise [of a as "[]"] by simp

lemma drains_stream:
  assumes "\<forall>(n, f) \<in> set items. \<not> has_magic n \<and> receivable f"
  shows "drains next_frame \<lparr>buf = concat (map (\<lambda>(n, f). n @ encode f) items), discarded = ds\<rparr>
           (map (\<lambda>(n, f). Inr f) items) \<lparr>buf = [], discarded = ds @ concat (map fst items)\<rparr>"
  using assms
proof (induction items arbitrary: ds)
  case Nil
  then show ?case by (simp add: next_frame_scan)
next
  case (Cons it items)
  obtain n f where it: "it = (n, f)" by fastforce
  with Cons.prems have "next_frame \<lparr>buf = n @ encode f @ concat (map (\<lambda>(n, f). n @ encode f) items), discarded = ds\<rparr>
      = (Some (Inr f), \<lparr>buf = concat (map (\<lambda>(n, f). n @ encode f) items), discarded = ds @ n\<rparr>)"
    by (intro next_frame_noise) auto
  with Cons.prems Cons.IH [of "ds @ n"] show ?case by (simp add: it)
qed

lemma scan_error_kinds:
  assumes "scan bs = ScanBad e"
  shows "(\<exists>t. e = BadTerminator t) \<or> (\<exists>c g. e = BadChecksum c g) \<or> (\<exists>d. e = BadDir d)"
proof -
  let ?n = "declared_span bs"
  have n: "?n \<le> length bs" and m: "bs ! 0 = MAGIC0" "bs ! 1 = MAGIC1"
    and pl: "plausible_len (declared_len bs)" and d: "decode (take ?n bs) = Inl e"
    using scan_span [OF disjI2, OF assms] assms by auto
  from pl have n8: "8 \<le> ?n"
    by (simp add: plausible_len_def declared_span_def word_le_nat_alt frame_consts)
  then have "(take ?n bs) ! k = bs ! k" if "k < 5" for k using that by simp
  moreover have "of_nat (length (take ?n bs) - 2) = from_be16 (bs ! 3) (bs ! 4)"
    using n by (simp add: declared_span_def declared_len_def min_def)
  ultimately show ?thesis
    using d n n8 m
    by (auto simp: decode_def FRAME_OVERHEAD_def Let_def split: if_splits option.splits)
qed

lemma next_frame_error_kinds:
  "next_frame r = (Some (Inl e), r') \<Longrightarrow>
     (\<exists>t. e = BadTerminator t) \<or> (\<exists>c g. e = BadChecksum c g) \<or> (\<exists>d. e = BadDir d)"
proof (induction r rule: next_frame_induct)
  case (step r)
  note eq = step.prems [unfolded next_frame_scan [of r]]
  show ?case
    using eq step.IH scan_error_kinds [of "buf r"] by (cases "scan (buf r)") auto
qed

lemma next_frame_receivable: "next_frame r = (Some (Inr f), r') \<Longrightarrow> receivable f"
proof (induction r rule: next_frame_induct)
  case (step r)
  note eq = step.prems [unfolded next_frame_scan [of r]]
  show ?case
  proof (cases "scan (buf r)")
    case (ScanFrame g)
    let ?n = "declared_span (buf r)"
    have "?n \<le> length (buf r)" and pl: "plausible_len (declared_len (buf r))"
      and d: "decode (take ?n (buf r)) = Inr g"
      using scan_span [OF disjI1, OF ScanFrame] ScanFrame by auto
    then have "wire_len g = ?n" using decode_length [OF d] by simp
    moreover have "?n \<le> 1026"
      using pl by (simp add: plausible_len_def declared_span_def word_le_nat_alt frame_consts)
    ultimately show ?thesis
      using ScanFrame eq by (simp add: wire_len_def FRAME_OVERHEAD_def receivable_def)
  qed (use eq step.IH in auto)
qed

lemma scan_more_bound: "scan bs = ScanMore \<Longrightarrow> length bs \<le> 1025"
  using scan_more_length [of bs]
  by (auto simp: plausible_len_def declared_span_def word_le_nat_alt frame_consts)

section \<open>Properties\<close>

text \<open>C30: how a byte stream is cut into reads does not matter. Draining the receiver after
  every read returns the same frames and errors, and leaves the same buffers, as
  feeding the whole stream at once.\<close>

theorem chunking_is_irrelevant:
  "drain_chunks receiver_new chunks = drain (feed (concat chunks) receiver_new)"
  by (rule drain_chunks_idle) (simp add: receiver_new_def)

text \<open>C9: the receiver resynchronises behind noise without a preamble. Frames whose payload is at most
  1018 bytes (the longest the receiver takes for plausible), each behind any bytes among which the two
  preamble bytes do not follow one another, come out all of them, in
  order and unchanged, however the stream was cut into reads; and what was thrown
  away is exactly the noise. Nothing is said of noise that contains a preamble: it can hold frames back.\<close>

theorem receiver_recovers_every_frame:
  assumes "\<forall>(noise, f) \<in> set items. \<not> has_magic noise \<and> receivable f"
    and "concat chunks = concat (map (\<lambda>(noise, f). noise @ encode f) items)"
  shows "drain_chunks receiver_new chunks =
    (map (\<lambda>(noise, f). Inr f) items, \<lparr>buf = [], discarded = concat (map fst items)\<rparr>)"
proof -
  have idle: "scan (buf receiver_new) = ScanMore" by (simp add: receiver_new_def)
  have "drain_chunks receiver_new chunks =
      drain \<lparr>buf = concat (map (\<lambda>(noise, f). noise @ encode f) items), discarded = []\<rparr>"
    by (simp only: drain_chunks_idle [OF idle] assms(2)) (simp add: feed_def receiver_new_def)
  then show ?thesis
    using drains_stream [OF assms(1), of "[]"] by (simp add: drain_iff)
qed

theorem receiver_recovers_every_frame_witness:
  "drain_chunks receiver_new
     [[0xA0, 0x46, 0x00, 0xB9, 0x46], encode (frame_mcu 0x80 [0xEE]) @ [0x00],
      encode (frame_mcu 0x80 [0x3C])] =
    ([Inr (frame_mcu 0x80 [0xEE]), Inr (frame_mcu 0x80 [0x3C])],
     \<lparr>buf = [], discarded = [0xA0, 0x46, 0x00, 0xB9, 0x46, 0x00]\<rparr>)"
  using receiver_recovers_every_frame
    [of "[([0xA0, 0x46, 0x00, 0xB9, 0x46], frame_mcu 0x80 [0xEE]), ([0x00], frame_mcu 0x80 [0x3C])]"
        "[[0xA0, 0x46, 0x00, 0xB9, 0x46], encode (frame_mcu 0x80 [0xEE]) @ [0x00],
          encode (frame_mcu 0x80 [0x3C])]"]
  by (simp add: frame_consts frame_mcu_def receivable_def)

text \<open>C31: no byte is lost or invented. The bytes discarded before and during a call, the bytes
  of the frame it returns and the bytes still buffered are, in that order, the
  bytes discarded and buffered before it.\<close>

theorem receiver_conserves_bytes:
  "case next_frame r of (res, r') \<Rightarrow>
     discarded r' @ (case res of Some (Inr f) \<Rightarrow> encode f | _ \<Rightarrow> []) @ buf r' = discarded r @ buf r"
  using next_frame_bytes [of r "fst (next_frame r)" "snd (next_frame r)"]
  by (auto split: prod.splits option.splits sum.splits)

text \<open>draining the receiver always ends, after at most one result per buffered byte.\<close>

lemma drain_ends: "length (fst (drain r)) \<le> pending r"
  using rx.drains_bound [OF drain_drains [of r]] by (simp add: pending_def)

text \<open>when the receiver asks for more bytes it holds at most 1025 of them, one byte short
  of the longest frame \<open>MAX_LEN_FIELD\<close> admits.\<close>

lemma idle_buffer_bound:
  assumes "next_frame r = (None, r')"
  shows "pending r' \<le> unat MAX_LEN_FIELD + 1"
  using scan_more_bound [OF next_frame_idle [OF assms]] by (simp add: pending_def MAX_LEN_FIELD_def)

text \<open>what a result can be. A returned frame has at most 1018 payload bytes; a returned error
  is a bad terminator, checksum or direction byte, never a bad preamble or length,
  because the hunt has checked those.\<close>

lemma next_frame_results:
  assumes "next_frame r = (Some x, r')"
  shows "case x of
      Inr f \<Rightarrow> length (payload f) \<le> 1018
    | Inl e \<Rightarrow> (\<exists>t. e = BadTerminator t) \<or> (\<exists>c g. e = BadChecksum c g) \<or> (\<exists>d. e = BadDir d)"
  using assms next_frame_receivable [of r _ r'] next_frame_error_kinds [of r _ r']
  by (auto simp: receivable_def split: sum.splits)

text \<open>C40: a plausible header is trusted until its whole span has arrived. Noise that happens to
  look like a preamble with \<open>LEN = 1024\<close> holds back everything behind it, complete
  valid frames included, until 1026 bytes are buffered.\<close>

theorem plausible_header_withholds_frames:
  assumes "length rest < 1021"
  shows "next_frame (feed ([MAGIC0, MAGIC1, b, 0x04, 0x00] @ rest) receiver_new) =
    (None, \<lparr>buf = [MAGIC0, MAGIC1, b, 0x04, 0x00] @ rest, discarded = []\<rparr>)"
proof -
  let ?bs = "[MAGIC0, MAGIC1, b, 0x04, 0x00] @ rest"
  have "declared_len ?bs = 1024" by (simp add: declared_len_def from_be16_def)
  then have "scan ?bs = ScanMore"
    using assms by (simp add: scan_def declared_span_def plausible_len_def MIN_LEN_FIELD_def MAX_LEN_FIELD_def)
  then show ?thesis by (simp add: next_frame_scan feed_def receiver_new_def)
qed

theorem plausible_header_withholds_frames_witness:
  "next_frame (feed ([MAGIC0, MAGIC1, 0x00, 0x04, 0x00] @ encode (frame_mcu 0x80 [])) receiver_new) =
    (None, \<lparr>buf = [MAGIC0, MAGIC1, 0x00, 0x04, 0x00] @ encode (frame_mcu 0x80 []), discarded = []\<rparr>)"
  by (rule plausible_header_withholds_frames)
    (simp add: wire_len_def frame_mcu_def FRAME_OVERHEAD_def)

end
