(* ===== verification/Step_Walk.thy ===== *)
theory Step_Walk imports Session begin

text \<open>
  A session as its caller sees it. The driver and the replay tests ask for
  actions and feed replies; \<open>conversation\<close> is that exchange run to its end. The
  locale \<open>step_walk\<close> states what such a caller relies on, in terms of the steps
  still to be done, and derives that the exchange is determined by them: the frames
  sent are the planned frames, and it completes exactly when every reply passes
  its step's check.
\<close>

definition send_action :: "nat \<Rightarrow> step \<Rightarrow> action" where
  "send_action i st =
     Send i (label st) (phase st) (encode (frame st)) (expect st \<noteq> Nothing) (timeout_ms st)
       (retune_before_send st) (retune_after_send st)"

inductive conversation ::
    "('s \<Rightarrow> (action \<times> 's) option) \<Rightarrow> (frame \<Rightarrow> 's \<Rightarrow> ((session_error + unit) \<times> 's) option)
     \<Rightarrow> 's \<Rightarrow> u8 list list \<Rightarrow> frame list \<Rightarrow> 's \<Rightarrow> bool"
  for act answer where
  conv_finished: "act s = Some (Finished, s') \<Longrightarrow> conversation act answer s [] [] s'"
| conv_send:
    "act s = Some (Send i l p bytes False ms b a, s1) \<Longrightarrow>
     conversation act answer s1 tx rx s2 \<Longrightarrow> conversation act answer s (bytes # tx) rx s2"
| conv_exchange:
    "act s = Some (Send i l p bytes True ms b a, s1) \<Longrightarrow> answer f s1 = Some (Inr (), s2) \<Longrightarrow>
     conversation act answer s2 tx rx s3 \<Longrightarrow> conversation act answer s (bytes # tx) (f # rx) s3"

inductive_cases conversationE: "conversation act answer s tx rx s'"

definition awaited :: "step list \<Rightarrow> step list" where
  "awaited sts = filter (\<lambda>st. expect st \<noteq> Nothing) sts"

definition reply_fits :: "step \<Rightarrow> frame \<Rightarrow> bool" where
  "reply_fits st f \<longleftrightarrow> check_reply st f = None"

lemma awaited_simps [simp]:
  "awaited [] = []"
  "awaited (st # sts) = (if expect st = Nothing then awaited sts else st # awaited sts)"
  by (simp_all add: awaited_def)

locale step_walk =
  fixes act :: "'s \<Rightarrow> (action \<times> 's) option"
    and answer :: "frame \<Rightarrow> 's \<Rightarrow> ((session_error + unit) \<times> 's) option"
    and todo :: "'s \<Rightarrow> step list"
    and waiting :: "'s \<Rightarrow> bool"
    and good :: "'s \<Rightarrow> bool"
  assumes act_done: "good s \<Longrightarrow> \<not> waiting s \<Longrightarrow> todo s = [] \<Longrightarrow> act s = Some (Finished, s)"
    and act_send: "good s \<Longrightarrow> \<not> waiting s \<Longrightarrow> todo s = st # sts \<Longrightarrow>
      \<exists>i s'. act s = Some (send_action i st, s') \<and> good s' \<and> waiting s' = (expect st \<noteq> Nothing)
        \<and> todo s' = (if expect st = Nothing then sts else st # sts)"
    and answer_fits: "good s \<Longrightarrow> waiting s \<Longrightarrow> todo s = st # sts \<Longrightarrow> reply_fits st f \<Longrightarrow>
      \<exists>s'. answer f s = Some (Inr (), s') \<and> good s' \<and> \<not> waiting s' \<and> todo s' = sts"
    and answer_misfits: "good s \<Longrightarrow> waiting s \<Longrightarrow> todo s = st # sts \<Longrightarrow> \<not> reply_fits st f \<Longrightarrow>
      \<exists>e. answer f s = Some (Inl e, s)"
begin

lemma conversation_runs:
  assumes "good s" and "\<not> waiting s" and "list_all2 reply_fits (awaited (todo s)) rx"
  shows "\<exists>s'. conversation act answer s (map (\<lambda>st. encode (frame st)) (todo s)) rx s'"
  using assms
proof (induction "todo s" arbitrary: s rx)
  case Nil
  from Nil.hyps [symmetric] Nil.prems act_done have "act s = Some (Finished, s)" by blast
  then show ?case using Nil by (auto intro: conv_finished)
next
  case (Cons st sts)
  note td = Cons.hyps(2) [symmetric]
  from act_send [OF Cons.prems(1,2) td] obtain i s1 where
    a: "act s = Some (send_action i st, s1)" and g: "good s1"
    and w: "waiting s1 = (expect st \<noteq> Nothing)"
    and t: "todo s1 = (if expect st = Nothing then sts else st # sts)" by blast
  show ?case
  proof (cases "expect st = Nothing")
    case True
    with Cons.hyps(1) [of s1 rx] Cons.prems(3) g w t td
    obtain s' where "conversation act answer s1 (map (\<lambda>st. encode (frame st)) sts) rx s'" by auto
    with a True td show ?thesis by (auto simp: send_action_def intro: conv_send)
  next
    case False
    with Cons.prems(3) td obtain f rx' where rx: "rx = f # rx'" and f: "reply_fits st f"
      and rest: "list_all2 reply_fits (awaited sts) rx'" by (auto simp: list_all2_Cons1)
    from False answer_fits [OF g _ _ f, of sts] w t obtain s2 where
      b: "answer f s1 = Some (Inr (), s2)" and g2: "good s2" "\<not> waiting s2" and t2: "todo s2 = sts"
      by auto
    from Cons.hyps(1) [of s2 rx'] g2 t2 rest obtain s'
      where "conversation act answer s2 (map (\<lambda>st. encode (frame st)) sts) rx' s'" by auto
    with a b False td rx show ?thesis by (auto simp: send_action_def intro: conv_exchange)
  qed
qed

lemma conversation_only:
  assumes "conversation act answer s tx rx s'" and "good s" and "\<not> waiting s"
  shows "tx = map (\<lambda>st. encode (frame st)) (todo s) \<and> list_all2 reply_fits (awaited (todo s)) rx
    \<and> good s' \<and> \<not> waiting s' \<and> todo s' = []"
  using assms
proof (induction rule: conversation.induct)
  case (conv_finished s s')
  show ?case
  proof (cases "todo s")
    case Nil
    with conv_finished act_done [of s] show ?thesis by simp
  next
    case (Cons st sts)
    with act_send [of s st sts] conv_finished show ?thesis by (auto simp: send_action_def)
  qed
next
  case (conv_send s i l p bytes ms b a s1 tx rx s2)
  show ?case
  proof (cases "todo s")
    case Nil
    with act_done [of s] conv_send.hyps(1) conv_send.prems show ?thesis by simp
  next
    case (Cons st sts)
    with act_send [of s st sts] conv_send.hyps(1) conv_send.prems
    have "bytes = encode (frame st)" "expect st = Nothing" "good s1" "\<not> waiting s1" "todo s1 = sts"
      by (auto simp: send_action_def split: if_splits)
    with conv_send.IH Cons show ?thesis by simp
  qed
next
  case (conv_exchange s i l p bytes ms b a s1 f s2 tx rx s3)
  show ?case
  proof (cases "todo s")
    case Nil
    with act_done [of s] conv_exchange.hyps(1) conv_exchange.prems show ?thesis by simp
  next
    case (Cons st sts)
    with act_send [of s st sts] conv_exchange.hyps(1) conv_exchange.prems
    have b: "bytes = encode (frame st)" and e: "expect st \<noteq> Nothing"
      and s1: "good s1" "waiting s1" "todo s1 = st # sts"
      by (auto simp: send_action_def split: if_splits)
    have fits: "reply_fits st f"
      using answer_misfits [OF s1, of f] conv_exchange.hyps(2) by auto
    with answer_fits [OF s1 fits] conv_exchange.hyps(2)
    have "good s2" "\<not> waiting s2" "todo s2 = sts" by auto
    with conv_exchange.IH Cons b e fits show ?thesis by simp
  qed
qed

lemma conversation_iff:
  assumes "good s" and "\<not> waiting s"
  shows "(\<exists>s'. conversation act answer s tx rx s') \<longleftrightarrow>
    tx = map (\<lambda>st. encode (frame st)) (todo s) \<and> list_all2 reply_fits (awaited (todo s)) rx"
  using conversation_only [of s tx rx] conversation_runs [of s rx] assms by blast

end

section \<open>The session provides the walk\<close>

definition session_inv :: "session \<Rightarrow> bool" where
  "session_inv s \<longleftrightarrow>
     at s \<le> length (steps s)
     \<and> (awaiting s \<longrightarrow> at s < length (steps s) \<and> expect (steps s ! at s) \<noteq> Nothing)
     \<and> (writes_started s \<longleftrightarrow>
          (\<exists>i < at s + of_bool (awaiting s). phase (steps s ! i) = Write))
     \<and> (writes_finished s \<longleftrightarrow>
          (\<exists>i < at s. phase (steps s ! i) = Write)
          \<and> (\<forall>i. at s \<le> i \<and> i < length (steps s) \<longrightarrow> phase (steps s ! i) \<noteq> Write))"

lemma session_inv_new [simp]: "session_inv (session_new sts)"
  by (simp add: session_inv_def session_new_def)

definition remaining :: "session \<Rightarrow> step list" where
  "remaining s = drop (at s) (steps s)"

definition no_write_after :: "session \<Rightarrow> nat \<Rightarrow> bool" where
  "no_write_after s k \<longleftrightarrow> (\<forall>i. k \<le> i \<and> i < length (steps s) \<longrightarrow> phase (steps s ! i) \<noteq> Write)"

lemma rposition_last_write:
  assumes "at s < length (steps s)" and "phase (steps s ! at s) = Write"
  shows "(at s = (case rposition (\<lambda>t. phase t = Write) (steps s) of Some i \<Rightarrow> i | None \<Rightarrow> at s))
    \<longleftrightarrow> no_write_after s (Suc (at s))"
proof (cases "rposition (\<lambda>t. phase t = Write) (steps s)")
  case None
  with assms show ?thesis by (auto simp: rposition_None_iff)
next
  case (Some i)
  then have i: "i < length (steps s)" "phase (steps s ! i) = Write"
    "\<forall>j. i < j \<and> j < length (steps s) \<longrightarrow> phase (steps s ! j) \<noteq> Write"
    by (simp_all add: rposition_Some_iff)
  have le: "at s \<le> i" using i(3) assms by (meson linorder_not_less)
  show ?thesis
  proof (cases "at s = i")
    case True
    with i(3) Some show ?thesis by (simp add: no_write_after_def Suc_le_eq)
  next
    case False
    with le i have "\<not> no_write_after s (Suc (at s))"
      by (auto simp: no_write_after_def Suc_le_eq)
    with False Some show ?thesis by simp
  qed
qed

lemma advance_eq:
  assumes "at s < length (steps s)"
  shows "advance s =
    Some (s\<lparr>writes_finished :=
              writes_finished s \<or> phase (steps s ! at s) = Write \<and> no_write_after s (Suc (at s)),
            at := Suc (at s), awaiting := False\<rparr>)"
proof (cases "phase (steps s ! at s) = Write")
  case True
  note last = rposition_last_write [OF assms True]
  show ?thesis
  proof (cases "no_write_after s (Suc (at s))")
    case wr: True
    with last have "at s = (case rposition (\<lambda>t. phase t = Write) (steps s) of Some i \<Rightarrow> i | None \<Rightarrow> at s)"
      by simp
    with assms True wr show ?thesis by (simp add: advance_def Let_def)
  next
    case wr: False
    with last have "at s \<noteq> (case rposition (\<lambda>t. phase t = Write) (steps s) of Some i \<Rightarrow> i | None \<Rightarrow> at s)"
      by simp
    with assms True wr show ?thesis by (simp add: advance_def Let_def)
  qed
next
  case False
  with assms show ?thesis by (simp add: advance_def Let_def)
qed

lemma split_at_cursor:
  assumes "k < n"
  shows "(\<forall>i. k \<le> i \<and> i < n \<longrightarrow> Q i) \<longleftrightarrow> Q k \<and> (\<forall>i. Suc k \<le> i \<and> i < n \<longrightarrow> Q i)"
  using assms by (metis Suc_le_eq le_eq_less_or_eq)

text \<open>The cursor moves past a step: what \<open>advance\<close> makes of the invariant, once the step's
  frame has been counted as sent.\<close>

lemma session_inv_advance:
  assumes inv: "at s < length (steps s)"
    and started: "writes_started s \<longleftrightarrow> (\<exists>i < Suc (at s). phase (steps s ! i) = Write)"
    and finished: "writes_finished s \<longleftrightarrow>
      (\<exists>i < at s. phase (steps s ! i) = Write) \<and> no_write_after s (at s)"
  shows "\<exists>s'. advance s = Some s' \<and> session_inv s' \<and> \<not> awaiting s' \<and> steps s' = steps s
    \<and> at s' = Suc (at s)"
proof -
  let ?s' = "s\<lparr>writes_finished :=
      writes_finished s \<or> phase (steps s ! at s) = Write \<and> no_write_after s (Suc (at s)),
      at := Suc (at s), awaiting := False\<rparr>"
  have split: "no_write_after s (at s) \<longleftrightarrow>
      phase (steps s ! at s) \<noteq> Write \<and> no_write_after s (Suc (at s))"
    unfolding no_write_after_def by (rule split_at_cursor [OF inv])
  have ex: "(\<exists>i < Suc (at s). phase (steps s ! i) = Write) \<longleftrightarrow>
      phase (steps s ! at s) = Write \<or> (\<exists>i < at s. phase (steps s ! i) = Write)"
    by (auto simp: less_Suc_eq)
  have "session_inv ?s'"
    unfolding session_inv_def
    using inv started finished split by (auto simp: ex no_write_after_def)
  with advance_eq [OF inv] show ?thesis by simp
qed

lemma session_inv_D:
  assumes "session_inv s"
  shows "at s \<le> length (steps s)"
    and "awaiting s \<Longrightarrow> at s < length (steps s)"
    and "awaiting s \<Longrightarrow> expect (steps s ! at s) \<noteq> Nothing"
    and "writes_started s \<longleftrightarrow> (\<exists>i < at s + of_bool (awaiting s). phase (steps s ! i) = Write)"
    and "writes_finished s \<longleftrightarrow>
      (\<exists>i < at s. phase (steps s ! i) = Write) \<and> no_write_after s (at s)"
  using assms by (simp_all add: session_inv_def no_write_after_def)

lemma bex_set_drop: "(\<exists>x \<in> set (drop k xs). P x) \<longleftrightarrow> (\<exists>i. k \<le> i \<and> i < length xs \<and> P (xs ! i))"
proof
  assume "\<exists>x \<in> set (drop k xs). P x"
  then obtain i where "i < length xs - k" "P (xs ! (k + i))" by (auto simp: in_set_conv_nth)
  then show "\<exists>i. k \<le> i \<and> i < length xs \<and> P (xs ! i)" by (intro exI [of _ "k + i"]) simp
next
  assume "\<exists>i. k \<le> i \<and> i < length xs \<and> P (xs ! i)"
  then obtain i where "k \<le> i" "i < length xs" "P (xs ! i)" by blast
  moreover from this have "xs ! i = drop k xs ! (i - k)" "i - k < length (drop k xs)" by simp_all
  ultimately show "\<exists>x \<in> set (drop k xs). P x" by (metis nth_mem)
qed

lemma flash_indeterminate_remaining:
  assumes "session_inv s"
  shows "flash_is_indeterminate s \<longleftrightarrow>
    (\<exists>st \<in> set (take (at s + of_bool (awaiting s)) (steps s)). phase st = Write)
    \<and> (\<exists>st \<in> set (remaining s). phase st = Write)"
proof -
  note D = session_inv_D [OF assms]
  have "at s + of_bool (awaiting s) \<le> length (steps s)" using D(1,2) by (cases "awaiting s") auto
  then have "(\<exists>st \<in> set (take (at s + of_bool (awaiting s)) (steps s)). phase st = Write)
      \<longleftrightarrow> (\<exists>i < at s + of_bool (awaiting s). phase (steps s ! i) = Write)"
    by (auto simp: set_conv_nth)
  moreover have "(\<exists>st \<in> set (remaining s). phase st = Write) \<longleftrightarrow> \<not> no_write_after s (at s)"
    by (auto simp: remaining_def no_write_after_def bex_set_drop)
  ultimately show ?thesis
    using D(2,4,5) unfolding flash_is_indeterminate_def no_write_after_def
    by (cases "awaiting s") (auto simp: less_Suc_eq)
qed

lemma remaining_Cons:
  assumes "remaining s = st # sts"
  shows "at s < length (steps s)" and "steps s ! at s = st" and "drop (Suc (at s)) (steps s) = sts"
proof -
  show l: "at s < length (steps s)"
    using assms by (metis drop_all linorder_not_less list.distinct(1) remaining_def)
  then show "steps s ! at s = st" and "drop (Suc (at s)) (steps s) = sts"
    using assms Cons_nth_drop_Suc [OF l] by (simp_all add: remaining_def)
qed

lemma next_action_send:
  assumes inv: "session_inv s" and idle: "\<not> awaiting s" and rem: "remaining s = st # sts"
  shows "\<exists>i s'. next_action s = Some (send_action i st, s') \<and> session_inv s'
    \<and> awaiting s' = (expect st \<noteq> Nothing)
    \<and> remaining s' = (if expect st = Nothing then sts else st # sts)"
proof -
  let ?s1 = "if phase st = Write then s\<lparr>writes_started := True\<rparr> else s"
  note l = remaining_Cons [OF rem]
  note D = session_inv_D [OF inv]
  have st1: "steps ?s1 = steps s" "at ?s1 = at s" "awaiting ?s1 = awaiting s"
    "writes_finished ?s1 = writes_finished s" by simp_all
  have started: "writes_started ?s1 \<longleftrightarrow> (\<exists>i < Suc (at s). phase (steps s ! i) = Write)"
    using D(4) idle l by (auto simp: less_Suc_eq)
  have nwa: "no_write_after ?s1 = no_write_after s" by (simp add: no_write_after_def fun_eq_iff)
  show ?thesis
  proof (cases "expect st = Nothing")
    case True
    from session_inv_advance [of ?s1] started D(5) l obtain s' where
      "advance ?s1 = Some s'" "session_inv s'" "\<not> awaiting s'" "steps s' = steps s"
      "at s' = Suc (at s)"
      by (auto simp: nwa st1 simp del: if_split)
    moreover from this(1) have "next_action s = Some (send_action (at s) st, s')"
      using idle l True by (simp add: next_action_def send_action_def Let_def)
    ultimately show ?thesis using True l by (auto simp: remaining_def)
  next
    case False
    have "session_inv (?s1\<lparr>awaiting := True\<rparr>)"
      unfolding session_inv_def
      using l False started D(5) nwa by (auto simp: no_write_after_def)
    moreover have "next_action s = Some (send_action (at s) st, ?s1\<lparr>awaiting := True\<rparr>)"
      using idle l False by (simp add: next_action_def send_action_def Let_def)
    moreover have "remaining (?s1\<lparr>awaiting := True\<rparr>) = st # sts"
      using rem by (simp add: remaining_def)
    ultimately show ?thesis using False
      by (intro exI [of _ "at s"] exI [of _ "?s1\<lparr>awaiting := True\<rparr>"]) simp
  qed
qed

lemma on_reply_fits:
  assumes inv: "session_inv s" and wait: "awaiting s" and rem: "remaining s = st # sts"
    and fits: "reply_fits st f"
  shows "\<exists>s'. on_reply f s = Some (Inr (), s') \<and> session_inv s' \<and> \<not> awaiting s' \<and> remaining s' = sts"
proof -
  note l = remaining_Cons [OF rem] and D = session_inv_D [OF inv]
  have "\<exists>s'. advance s = Some s' \<and> session_inv s' \<and> \<not> awaiting s' \<and> steps s' = steps s
      \<and> at s' = Suc (at s)"
    by (rule session_inv_advance) (use l D wait in simp_all)
  then obtain s' where "advance s = Some s'" "session_inv s'" "\<not> awaiting s'" "steps s' = steps s"
    "at s' = Suc (at s)" by blast
  with l wait fits show ?thesis by (auto simp: on_reply_def reply_fits_def remaining_def)
qed

lemma on_reply_misfits:
  assumes "awaiting s" and "remaining s = st # sts" and "check_reply st f = Some e"
  shows "on_reply f s = Some (Inl e, s)"
  using assms remaining_Cons [OF assms(2)] by (simp add: on_reply_def)

interpretation walk: step_walk next_action on_reply remaining awaiting session_inv
proof unfold_locales
  show "next_action s = Some (Finished, s)"
    if "session_inv s" "\<not> awaiting s" "remaining s = []" for s
    using that by (simp add: next_action_def remaining_def)
  show "\<exists>e. on_reply f s = Some (Inl e, s)"
    if "session_inv s" "awaiting s" "remaining s = st # sts" "\<not> reply_fits st f" for s st sts f
    using that on_reply_misfits [of s st sts f] by (auto simp: reply_fits_def)
qed (use next_action_send on_reply_fits in blast)+

section \<open>Reachable sessions\<close>

text \<open>Any use of a session whatever, also a wrong one: actions and replies in any order.\<close>

inductive session_step :: "session \<Rightarrow> session \<Rightarrow> bool" where
  step_action: "next_action s = Some (a, s') \<Longrightarrow> session_step s s'"
| step_reply: "on_reply f s = Some (res, s') \<Longrightarrow> session_step s s'"

inductive_cases session_stepE: "session_step s s'"

inductive reachable_session :: "step list \<Rightarrow> session \<Rightarrow> bool" for sts where
  reach_new: "reachable_session sts (session_new sts)"
| reach_step: "reachable_session sts s \<Longrightarrow> session_step s s' \<Longrightarrow> reachable_session sts s'"

lemma session_cases:
  assumes "session_inv s"
  obtains st sts where "awaiting s" and "remaining s = st # sts" and "expect st \<noteq> Nothing"
  | "\<not> awaiting s" and "remaining s = []"
  | st sts where "\<not> awaiting s" and "remaining s = st # sts"
proof (cases "awaiting s")
  case True
  note D = session_inv_D [OF assms]
  from D(2) [OF True] have "remaining s = steps s ! at s # drop (Suc (at s)) (steps s)"
    by (simp add: remaining_def Cons_nth_drop_Suc)
  then show thesis using that(1) True D(3) [OF True] by blast
next
  case False
  then show thesis using that(2,3) by (cases "remaining s") blast+
qed

lemma next_action_steps: "next_action s = Some (a, s') \<Longrightarrow> steps s' = steps s"
  by (auto simp: next_action_def advance_eq Let_def split: if_splits)

lemma on_reply_steps: "on_reply f s = Some (res, s') \<Longrightarrow> steps s' = steps s"
  by (auto simp: on_reply_def advance_eq split: if_splits option.splits)

lemma next_action_inv:
  assumes inv: "session_inv s"
  shows "\<exists>a s'. next_action s = Some (a, s') \<and> session_inv s'"
  using inv
proof (cases rule: session_cases)
  case 1
  then have "next_action s = Some (AwaitingReply, s)" by (simp add: next_action_def)
  with inv show ?thesis by blast
next
  case 2
  with inv have "next_action s = Some (Finished, s)" by (simp add: walk.act_done)
  with inv show ?thesis by blast
next
  case (3 st sts)
  with inv show ?thesis using next_action_send by blast
qed

lemma on_reply_inv:
  assumes inv: "session_inv s"
  shows "\<exists>res s'. on_reply f s = Some (res, s') \<and> session_inv s'"
proof (cases "awaiting s")
  case False
  then have "on_reply f s = Some (Inl NotAwaiting, s)" by (simp add: on_reply_def)
  with inv show ?thesis by blast
next
  case True
  then obtain st sts where rem: "remaining s = st # sts"
    using session_cases [OF inv] by metis
  show ?thesis
  proof (cases "reply_fits st f")
    case fits: True
    then show ?thesis using on_reply_fits [OF inv True rem fits] by blast
  next
    case False
    then show ?thesis using walk.answer_misfits [OF inv True rem] inv by blast
  qed
qed

lemma session_step_inv: "session_step s s' \<Longrightarrow> session_inv s \<Longrightarrow> session_inv s'"
proof (induction rule: session_step.induct)
  case (step_action s a s')
  then show ?case using next_action_inv [of s] by auto
next
  case (step_reply f s res s')
  then show ?case using on_reply_inv [of s f] by auto
qed

lemma session_step_steps: "session_step s s' \<Longrightarrow> steps s' = steps s"
  by (auto elim!: session_stepE dest: next_action_steps on_reply_steps)

lemma session_new_steps [simp]: "steps (session_new sts) = sts"
  by (simp add: session_new_def)

lemma reachable_session_inv: "reachable_session sts s \<Longrightarrow> session_inv s \<and> steps s = sts"
  by (induction rule: reachable_session.induct)
    (auto dest: session_step_inv session_step_steps simp: session_new_steps)

lemma reply_fits_iff:
  "reply_fits st f \<longleftrightarrow> dir f = McuToHost \<and>
    (case expect st of
       Nothing \<Rightarrow> False
     | Echo \<Rightarrow> is_echo_of f (frame st)
     | Ack c p \<Rightarrow> cmd f = c \<and> payload f = p
     | AckLen c n \<Rightarrow> cmd f = c \<and> length (payload f) = n
     | BlockAck k \<Rightarrow> cmd f = REPLY_ACK \<and> payload f = [k])"
  by (cases "payload f") (auto simp: reply_fits_def check_reply_def split: expect.splits)

section \<open>A one-block session\<close>

text \<open>A session with a single write step, used to show that the hypotheses of the properties can
  hold: after its only action it waits for the acknowledgement of that block.\<close>

definition one_write :: step where
  "one_write = \<lparr>phase = Write, label = ''write block 1/1 at 0x0000'',
     frame = frame_host 0x00 [0, 0, 0, 0, 0, 1, 0xAA], expect = BlockAck 0xAA, timeout_ms = 2000,
     retune_before_send = None, retune_after_send = None, write_addr = Some 0\<rparr>"

definition mid_write :: session where
  "mid_write = \<lparr>steps = [one_write], at = 0, awaiting = True, writes_started = True,
     writes_finished = False\<rparr>"

lemma reachable_mid_write: "reachable_session [one_write] mid_write"
proof (rule reach_step [OF reach_new step_action])
  show "next_action (session_new [one_write]) = Some (send_action 0 one_write, mid_write)"
    by (simp add: next_action_def session_new_def one_write_def mid_write_def send_action_def)
qed

section \<open>Properties\<close>

text \<open>C10: no use of a session panics. Whatever sequence of actions and replies led to a state,
  asking for the next action and feeding any reply both return: the cursor never
  indexes past the steps.\<close>

theorem session_never_panics:
  assumes "reachable_session sts s"
  shows "next_action s \<noteq> None \<and> on_reply f s \<noteq> None"
proof -
  from assms have "session_inv s" by (simp add: reachable_session_inv)
  from next_action_inv [OF this] on_reply_inv [OF this, of f] show ?thesis by auto
qed

theorem session_never_panics_witness:
  "next_action (session_new []) \<noteq> None \<and> on_reply (frame_mcu 0x80 []) (session_new []) \<noteq> None"
  by (rule session_never_panics) (rule reach_new)

text \<open>C17: \<open>flash_is_indeterminate\<close> says what its comment promises. In every reachable session
  it holds exactly when some write frame has been handed out and some write step is
  still not completed.\<close>

theorem indeterminate_exactly_mid_write:
  assumes "reachable_session sts s"
  shows "flash_is_indeterminate s \<longleftrightarrow>
    (\<exists>i < at s + of_bool (awaiting s). phase (sts ! i) = Write)
    \<and> (\<exists>i. at s \<le> i \<and> i < length sts \<and> phase (sts ! i) = Write)"
proof -
  from assms have inv: "session_inv s" and st: "steps s = sts" by (auto simp: reachable_session_inv)
  note D = session_inv_D [OF inv]
  show ?thesis
    using D(2,4,5) unfolding flash_is_indeterminate_def no_write_after_def st
    by (cases "awaiting s") (auto simp: less_Suc_eq)
qed

theorem indeterminate_exactly_mid_write_witness:
  "flash_is_indeterminate mid_write \<longleftrightarrow>
    (\<exists>i < at mid_write + of_bool (awaiting mid_write). phase ([one_write] ! i) = Write)
    \<and> (\<exists>i. at mid_write \<le> i \<and> i < length [one_write] \<and> phase ([one_write] ! i) = Write)"
  by (rule indeterminate_exactly_mid_write) (rule reachable_mid_write)

text \<open>C18: \<open>on_reply\<close> in full. While a reply is awaited it accepts exactly a frame from the MCU
  that the step's expectation allows (an echo, a fixed answer, an answer of fixed
  length, or the one byte of the block sum), moves past the step and clears the wait;
  every other frame is refused with an error and leaves the session untouched.\<close>

theorem on_reply_accepts_exactly:
  assumes "reachable_session sts s" and "awaiting s"
  shows "if dir f = McuToHost \<and>
      (case expect (sts ! at s) of
         Nothing \<Rightarrow> False
       | Echo \<Rightarrow> is_echo_of f (frame (sts ! at s))
       | Ack c p \<Rightarrow> cmd f = c \<and> payload f = p
       | AckLen c n \<Rightarrow> cmd f = c \<and> length (payload f) = n
       | BlockAck k \<Rightarrow> cmd f = REPLY_ACK \<and> payload f = [k])
    then \<exists>s'. on_reply f s = Some (Inr (), s') \<and> at s' = at s + 1 \<and> \<not> awaiting s'
    else \<exists>e. on_reply f s = Some (Inl e, s)"
proof -
  from assms have inv: "session_inv s" and st: "steps s = sts" by (auto simp: reachable_session_inv)
  have l: "at s < length (steps s)" using session_inv_D(2) [OF inv] assms(2) .
  have "if reply_fits (sts ! at s) f
    then \<exists>s'. on_reply f s = Some (Inr (), s') \<and> at s' = at s + 1 \<and> \<not> awaiting s'
    else \<exists>e. on_reply f s = Some (Inl e, s)"
    using assms(2) l by (auto simp: on_reply_def reply_fits_def st [symmetric] advance_eq)
  then show ?thesis unfolding reply_fits_iff .
qed

theorem on_reply_accepts_exactly_witness:
  "(\<exists>s'. on_reply (frame_mcu 0x80 [0xAA]) mid_write = Some (Inr (), s') \<and> at s' = 1 \<and> \<not> awaiting s')
   \<and> (\<exists>e. on_reply (frame_mcu 0x80 [0xAB]) mid_write = Some (Inl e, mid_write))"
proof -
  have "awaiting mid_write" by (simp add: mid_write_def)
  from on_reply_accepts_exactly [OF reachable_mid_write this, of "frame_mcu 0x80 [0xAA]"]
    on_reply_accepts_exactly [OF reachable_mid_write this, of "frame_mcu 0x80 [0xAB]"]
  show ?thesis by (simp add: frame_mcu_def mid_write_def one_write_def REPLY_ACK_def)
qed

end
