(* ===== verification/Protocol.thy ===== *)
theory Protocol imports Step_Walk begin

text \<open>
  The protocol-family interface of \<open>src/src/protocol/mod.rs\<close>: the job a caller
  asks for, the host's options with their defaults, what a status packet tells, and
  the errors. The trait \<open>ProtocolFamily\<close> becomes the locale \<open>protocol_family\<close>:
  its operations are the parameters, and the laws are what the driver and the
  command line rely on.
\<close>

datatype job =
    Identify
  | EraseJob "u8 option"
  | FlashJob "u8 list" bool

record session_options =
  handshake_baud :: u32
  transfer_baud :: u32
  reply_timeout_ms :: u64
  erase_timeout_ms :: u64

definition session_options_default :: session_options where
  "session_options_default =
     \<lparr>handshake_baud = 2400, transfer_baud = 115200, reply_timeout_ms = 2000,
      erase_timeout_ms = 20000\<rparr>"

record target_info =
  family :: string
  chip_id :: "u8 list"
  model :: "string option"
  code_flash :: "nat option"
  eeprom_flash :: "nat option"
  bsl_version :: string
  measured_hz :: u64
  freq_words :: "u16 list"
  option_bytes :: "u8 list"
  raw_status :: "u8 list"

datatype protocol_error =
    NotAStatusFrame u8
  | ShortStatus nat nat
  | InconsistentFrequency "u16 list"
  | ImplausibleFrequency u64
  | UnreachableBaud u32 int
  | ImageTooLarge nat nat
  | EmptyImage
  | UnknownChipSize "u8 list"
  | EraseTooLarge nat

text \<open>
  The laws. A status packet comes from the MCU, and only one is ever parsed. A
  plan is a sequence of host frames in protocol order that ends with the one
  frame nobody answers, so the application is released last and nothing is sent
  behind it.
\<close>

locale protocol_family =
  fixes is_status :: "frame \<Rightarrow> bool"
    and parse :: "frame \<Rightarrow> u32 \<Rightarrow> protocol_error + target_info"
    and make_plan :: "target_info \<Rightarrow> job \<Rightarrow> session_options \<Rightarrow> protocol_error + step list"
  assumes parse_is_status: "parse f b = Inr info \<Longrightarrow> is_status f"
    and status_from_mcu: "is_status f \<Longrightarrow> dir f = McuToHost"
    and plan_host_frames: "make_plan info job opts = Inr sts \<Longrightarrow> st \<in> set sts \<Longrightarrow>
      dir (frame st) = HostToMcu"
    and plan_in_order: "make_plan info job opts = Inr sts \<Longrightarrow> sorted (map phase sts)"
    and plan_ends: "make_plan info job opts = Inr sts \<Longrightarrow> \<exists>pre st. sts = pre @ [st] \<and>
      phase st = Run \<and> expect st = Nothing \<and> (\<forall>t \<in> set pre. expect t \<noteq> Nothing \<and> phase t \<noteq> Run)"
begin

text \<open>A completed session sent every planned frame and had every frame but the last answered.\<close>

lemma plan_conversation:
  assumes "make_plan info job opts = Inr sts"
  shows "(\<exists>s'. conversation next_action on_reply (session_new sts) tx rx s') \<longleftrightarrow>
    tx = map (\<lambda>st. encode (frame st)) sts \<and> list_all2 reply_fits (butlast sts) rx"
proof -
  from plan_ends [OF assms] obtain pre st where
    "sts = pre @ [st]" "expect st = Nothing" "\<forall>t \<in> set pre. expect t \<noteq> Nothing" by blast
  then have "awaited sts = butlast sts" by (simp add: awaited_def)
  moreover have "remaining (session_new sts) = sts" "\<not> awaiting (session_new sts)"
    by (simp_all add: remaining_def session_new_def)
  ultimately show ?thesis using walk.conversation_iff [OF session_inv_new, of sts tx rx] by simp
qed

text \<open>No planned frame is one the receiver would take for a status packet.\<close>

lemma plan_not_status:
  "make_plan info job opts = Inr sts \<Longrightarrow> st \<in> set sts \<Longrightarrow> \<not> is_status (frame st)"
  using plan_host_frames status_from_mcu by fastforce

end

end
