(* ===== verification/Driver.thy ===== *)
theory Driver imports Receiver Protocol begin

text \<open>
  The driver of \<open>src/src/driver.rs\<close>. The trait \<open>Wire\<close> is a record of functions over
  an environment of any type, which also carries the clock the driver reads
  (\<open>Instant::now\<close>, in nanoseconds) and sleeps on; nothing is assumed of it here. The \<open>Log\<close> is the
  list of its events. \<open>send_frame\<close> is the \<open>Send\<close> arm of \<open>run\<close> up to the wait for a
  reply, \<open>await_reply\<close> the inner loop, \<open>run_loop\<close> the outer one; \<open>handshake_loop\<close> is the
  main loop of \<open>handshake\<close>. The two loops that a silent wire can keep running are
  partial functions to an option, whose \<open>None\<close> is not returning.
\<close>

section \<open>Wire, clock, log and errors\<close>

text \<open>
  \<open>std::io::Error\<close>: its kind and the text it displays. The code tells only two kinds apart
  from the others.
\<close>

datatype io_error_kind = TimedOut | Other | KindOf string

datatype io_error = IoError (kind: io_error_kind) (message: string)

record 'w wire =
  wire_write_all :: "u8 list \<Rightarrow> 'w \<Rightarrow> (io_error + unit) \<times> 'w"
  wire_read :: "nat \<Rightarrow> 'w \<Rightarrow> (io_error + u8 list) \<times> 'w"
  wire_set_baud :: "u32 \<Rightarrow> 'w \<Rightarrow> (io_error + unit) \<times> 'w"
  wire_flush :: "'w \<Rightarrow> (io_error + unit) \<times> 'w"
  wire_baud :: "'w \<Rightarrow> u32"
  wire_drain :: "'w \<Rightarrow> (io_error + unit) \<times> 'w"
  clock_now :: "'w \<Rightarrow> int \<times> 'w"
  clock_sleep :: "int \<Rightarrow> 'w \<Rightarrow> 'w"

definition millis :: "int \<Rightarrow> int" where
  "millis ms = ms * 1000000"

text \<open>\<open>Instant::elapsed\<close> saturates at zero.\<close>

definition elapsed :: "int \<Rightarrow> int \<Rightarrow> int" where
  "elapsed since t = max 0 (t - since)"

datatype drain_mode = TcDrain | ComputeWireTime

record drain_config =
  drain_mode :: drain_mode
  margin_ms :: int

definition drain_config_default :: drain_config where
  "drain_config_default = \<lparr>drain_mode = TcDrain, margin_ms = 100\<rparr>"

datatype log_note =
    IgnoringFrame u8
  | DiscardingMalformed frame_error
  | Switched u64 u32
  | Rehunting frame_error

datatype log_event =
    LogStep string "u8 list"
  | LogReply frame
  | LogNote log_note
  | LogDiscarded "u8 list"

datatype driver_error =
    Io io_error
  | ProtocolFailed protocol_error
  | SessionFailed session_error
  | FrameFailed frame_error
  | Timeout string u64
  | NoBootloader u64 nat
  | IndeterminateFlash driver_error

text \<open>How a call ends: with a value, with an error, or in a panic.\<close>

datatype 'a outcome = Done 'a | Failed driver_error | Panicked

definition SYNC_BYTE :: u8 where "SYNC_BYTE = 0x7F"

definition wrap :: "session \<Rightarrow> driver_error \<Rightarrow> driver_error" where
  "wrap s e = (if flash_is_indeterminate s then IndeterminateFlash e else e)"

section \<open>Steps that thread the log and the wire\<close>

type_synonym ('w, 'a) driver = "log_event list \<Rightarrow> 'w \<Rightarrow> 'a outcome \<times> log_event list \<times> 'w"

definition ret :: "'a \<Rightarrow> ('w, 'a) driver" where
  "ret x = (\<lambda>log w. (Done x, log, w))"

definition andthen :: "('w, 'a) driver \<Rightarrow> ('a \<Rightarrow> ('w, 'b) driver) \<Rightarrow> ('w, 'b) driver" where
  "andthen m f = (\<lambda>log w.
     (case m log w of
        (Done x, log, w) \<Rightarrow> f x log w
      | (Failed e, log, w) \<Rightarrow> (Failed e, log, w)
      | (Panicked, log, w) \<Rightarrow> (Panicked, log, w)))"

text \<open>\<open>op.map_err(f)?\<close> on an I/O operation, a line of the log, and a call that cannot fail.\<close>

definition io :: "(driver_error \<Rightarrow> driver_error) \<Rightarrow> ('w \<Rightarrow> (io_error + 'a) \<times> 'w) \<Rightarrow> ('w, 'a) driver" where
  "io f m = (\<lambda>log w.
     (case m w of
        (Inr x, w) \<Rightarrow> (Done x, log, w)
      | (Inl e, w) \<Rightarrow> (Failed (f (Io e)), log, w)))"

definition say :: "log_event \<Rightarrow> ('w, unit) driver" where
  "say e = (\<lambda>log w. (Done (), log @ [e], w))"

definition pass :: "('w \<Rightarrow> 'a \<times> 'w) \<Rightarrow> ('w, 'a) driver" where
  "pass m = (\<lambda>log w. (case m w of (x, w) \<Rightarrow> (Done x, log, w)))"

text \<open>\<open>let d = rx.take_discarded(); if !d.is_empty() { log.discarded(&d) }\<close>\<close>

definition log_discarded :: "receiver \<Rightarrow> log_event list \<Rightarrow> receiver \<times> log_event list" where
  "log_discarded rx log =
     (case take_discarded rx of
        (d, rx) \<Rightarrow> (rx, if d \<noteq> [] then log @ [LogDiscarded d] else log))"

section \<open>Running a session\<close>

definition send_frame ::
    "'w wire \<Rightarrow> drain_config \<Rightarrow> session \<Rightarrow> string \<Rightarrow> u8 list \<Rightarrow> u32 option \<Rightarrow> u32 option
     \<Rightarrow> receiver \<Rightarrow> ('w, receiver) driver" where
  "send_frame W cfg s lbl bytes before after rx =
     andthen
       (case before of
          Some b \<Rightarrow> andthen (io (wrap s) (wire_set_baud W b)) (\<lambda>_. ret receiver_new)
        | None \<Rightarrow> ret rx) (\<lambda>rx.
     andthen (say (LogStep lbl bytes)) (\<lambda>_.
     andthen (io (wrap s) (wire_write_all W bytes)) (\<lambda>_.
     andthen (io (wrap s) (wire_flush W)) (\<lambda>_.
       (case after of
          None \<Rightarrow> ret rx
        | Some b \<Rightarrow>
            andthen (if drain_mode cfg = TcDrain then io (wrap s) (wire_drain W) else ret ()) (\<lambda>_.
            let settle = max 0 (margin_ms cfg)
            in andthen
                 (if 0 < settle then pass (\<lambda>w. ((), clock_sleep W (millis settle) w)) else ret ()) (\<lambda>_.
               andthen (io (wrap s) (wire_set_baud W b)) (\<lambda>_.
               andthen (say (LogNote (Switched (of_int settle) b))) (\<lambda>_.
               ret receiver_new)))))))))"

partial_function (option) await_reply ::
    "'w wire \<Rightarrow> session \<Rightarrow> string \<Rightarrow> u64 \<Rightarrow> int \<Rightarrow> receiver \<Rightarrow> log_event list \<Rightarrow> 'w
     \<Rightarrow> (frame outcome \<times> receiver \<times> log_event list \<times> 'w) option" where
  "await_reply W s lbl ms deadline rx log w =
     (case next_frame rx of
        (Some res, rx) \<Rightarrow>
          (case log_discarded rx log of
             (rx, log) \<Rightarrow>
               (case res of
                  Inr f \<Rightarrow> Some (Done f, rx, log, w)
                | Inl e \<Rightarrow>
                    await_reply W s lbl ms deadline rx (log @ [LogNote (Rehunting e)]) w))
      | (None, rx) \<Rightarrow>
          (case clock_now W w of
             (t, w) \<Rightarrow>
               if deadline \<le> t then Some (Failed (wrap s (Timeout lbl ms)), rx, log, w)
               else
                 (case wire_read W 512 w of
                    (Inl e, w) \<Rightarrow> Some (Failed (wrap s (Io e)), rx, log, w)
                  | (Inr bs, w) \<Rightarrow>
                      if 512 < length bs then Some (Panicked, rx, log, w)
                      else await_reply W s lbl ms deadline
                             (if 0 < length bs then feed bs rx else rx) log w)))"

partial_function (option) run_loop ::
    "'w wire \<Rightarrow> drain_config \<Rightarrow> receiver \<Rightarrow> session \<Rightarrow> log_event list \<Rightarrow> 'w
     \<Rightarrow> (unit outcome \<times> session \<times> log_event list \<times> 'w) option" where
  "run_loop W cfg rx s log w =
     (case next_action s of
        None \<Rightarrow> Some (Panicked, s, log, w)
      | Some (a, s) \<Rightarrow>
          (case a of
             Finished \<Rightarrow> Some (Done (), s, log, w)
           | AwaitingReply \<Rightarrow> Some (Panicked, s, log, w)
           | SetBaud b \<Rightarrow>
               (case io (wrap s) (wire_set_baud W b) log w of
                  (Failed e, log, w) \<Rightarrow> Some (Failed e, s, log, w)
                | (Panicked, log, w) \<Rightarrow> Some (Panicked, s, log, w)
                | (Done _, log, w) \<Rightarrow> run_loop W cfg receiver_new s log w)
           | Send i lbl p bytes expect_reply ms before after \<Rightarrow>
               (case send_frame W cfg s lbl bytes before after rx log w of
                  (Failed e, log, w) \<Rightarrow> Some (Failed e, s, log, w)
                | (Panicked, log, w) \<Rightarrow> Some (Panicked, s, log, w)
                | (Done rx, log, w) \<Rightarrow>
                    if \<not> expect_reply then run_loop W cfg rx s log w
                    else
                      (case clock_now W w of
                         (t, w) \<Rightarrow>
                           (case await_reply W s lbl ms (t + millis (int (unat ms))) rx log w of
                              None \<Rightarrow> None
                            | Some (Failed e, rx, log, w) \<Rightarrow> Some (Failed e, s, log, w)
                            | Some (Panicked, rx, log, w) \<Rightarrow> Some (Panicked, s, log, w)
                            | Some (Done f, rx, log, w) \<Rightarrow>
                                (case log_discarded rx log of
                                   (rx, log) \<Rightarrow>
                                     (case on_reply f s of
                                        None \<Rightarrow> Some (Panicked, s, log @ [LogReply f], w)
                                      | Some (Inl e, s) \<Rightarrow>
                                          Some (Failed (wrap s (SessionFailed e)), s, log @ [LogReply f], w)
                                      | Some (Inr _, s) \<Rightarrow>
                                          run_loop W cfg rx s (log @ [LogReply f]) w)))))))"

definition run ::
    "'w wire \<Rightarrow> session \<Rightarrow> drain_config \<Rightarrow> log_event list \<Rightarrow> 'w
     \<Rightarrow> (unit outcome \<times> session \<times> log_event list \<times> 'w) option" where
  "run W s cfg log w = run_loop W cfg receiver_new s log w"

section \<open>The handshake\<close>

definition PULSE_EVERY :: int where "PULSE_EVERY = millis 30"
definition PARTIAL_STALL :: int where "PARTIAL_STALL = millis 400"

text \<open>Whether a pulse is due, and if so the pulse: the new \<open>last_pulse\<close>.\<close>

definition sync_pulse :: "'w wire \<Rightarrow> receiver \<Rightarrow> int \<Rightarrow> int \<Rightarrow> ('w, int) driver" where
  "sync_pulse W rx last_pulse last_byte =
     andthen
       (if 0 < pending rx
        then andthen (pass (clock_now W)) (\<lambda>t. ret (elapsed last_byte t < PARTIAL_STALL))
        else ret False) (\<lambda>mid_frame.
     andthen
       (if \<not> mid_frame
        then andthen (pass (clock_now W)) (\<lambda>t. ret (PULSE_EVERY \<le> elapsed last_pulse t))
        else ret False) (\<lambda>due.
     if due then
       andthen (io id (wire_write_all W [SYNC_BYTE])) (\<lambda>_.
       andthen (io id (wire_flush W)) (\<lambda>_.
       pass (clock_now W)))
     else ret last_pulse))"

text \<open>\<open>let d = rx.take_discarded(); if !d.is_empty() { noise += d.len(); log.discarded(&d) }\<close>\<close>

definition count_noise ::
    "receiver \<Rightarrow> nat \<Rightarrow> log_event list \<Rightarrow> receiver \<times> nat \<times> log_event list" where
  "count_noise rx noise log =
     (case take_discarded rx of
        (d, rx) \<Rightarrow>
          if d \<noteq> [] then (rx, noise + length d, log @ [LogDiscarded d]) else (rx, noise, log))"

lemma pending_count_noise: "count_noise rx noise log = (rx', noise', log') \<Longrightarrow> pending rx' = pending rx"
  by (auto simp: count_noise_def take_discarded_def pending_def split: if_splits)

lemma next_frame_pending: "next_frame rx = (Some res, rx') \<Longrightarrow> pending rx' < pending rx"
  using rx.pull_shrinks by (simp add: pending_def)

text \<open>\<open>while let Some(result) = rx.next_frame()\<close>: the result of the handshake, if a status frame turned up.\<close>

function handshake_drain ::
    "(frame \<Rightarrow> bool) \<Rightarrow> (frame \<Rightarrow> u32 \<Rightarrow> protocol_error + target_info) \<Rightarrow> u32 \<Rightarrow> receiver \<Rightarrow> nat
     \<Rightarrow> log_event list \<Rightarrow> target_info outcome option \<times> receiver \<times> nat \<times> log_event list" where
  "handshake_drain is_status parse baud rx noise log =
     (case next_frame rx of
        (None, rx) \<Rightarrow> (None, rx, noise, log)
      | (Some res, rx) \<Rightarrow>
          (case count_noise rx noise log of
             (rx, noise, log) \<Rightarrow>
               (case res of
                  Inr f \<Rightarrow>
                    if is_status f then
                      (Some (case parse f baud of
                               Inl e \<Rightarrow> Failed (ProtocolFailed e)
                             | Inr info \<Rightarrow> Done info), rx, noise, log @ [LogReply f])
                    else handshake_drain is_status parse baud rx noise
                           (log @ [LogNote (IgnoringFrame (cmd f))])
                | Inl e \<Rightarrow> handshake_drain is_status parse baud rx noise
                           (log @ [LogNote (DiscardingMalformed e)]))))"
  by pat_completeness auto
termination
  by (relation "measure (\<lambda>(_, _, _, rx, _). pending rx)")
    (auto dest!: next_frame_pending [OF sym] pending_count_noise [OF sym])

declare handshake_drain.simps [simp del]

partial_function (option) handshake_loop ::
    "'w wire \<Rightarrow> (frame \<Rightarrow> bool) \<Rightarrow> (frame \<Rightarrow> u32 \<Rightarrow> protocol_error + target_info) \<Rightarrow> u32 \<Rightarrow> int \<Rightarrow> int
     \<Rightarrow> receiver \<Rightarrow> int \<Rightarrow> int \<Rightarrow> nat \<Rightarrow> log_event list \<Rightarrow> 'w
     \<Rightarrow> (target_info outcome \<times> log_event list \<times> 'w) option" where
  "handshake_loop W is_status parse baud wait started rx last_pulse last_byte noise log w =
     (case clock_now W w of
        (t, w) \<Rightarrow>
          if \<not> elapsed started t < wait
          then Some (Failed (NoBootloader (of_int (wait div 1000000)) noise), log, w)
          else
            (case sync_pulse W rx last_pulse last_byte log w of
               (Failed e, log, w) \<Rightarrow> Some (Failed e, log, w)
             | (Panicked, log, w) \<Rightarrow> Some (Panicked, log, w)
             | (Done last_pulse, log, w) \<Rightarrow>
                 (case wire_read W 256 w of
                    (Inl e, w) \<Rightarrow> Some (Failed (Io e), log, w)
                  | (Inr bs, w) \<Rightarrow>
                      if 256 < length bs then Some (Panicked, log, w)
                      else
                        (case (if 0 < length bs
                               then (case clock_now W w of (t, w) \<Rightarrow> (t, feed bs rx, w))
                               else (last_byte, rx, w)) of
                           (last_byte, rx, w) \<Rightarrow>
                             (case handshake_drain is_status parse baud rx noise log of
                                (Some out, rx, noise, log) \<Rightarrow> Some (out, log, w)
                              | (None, rx, noise, log) \<Rightarrow>
                                  (case count_noise rx noise log of
                                     (rx, noise, log) \<Rightarrow>
                                       handshake_loop W is_status parse baud wait started rx
                                         last_pulse last_byte noise log w))))))"

definition handshake ::
    "'w wire \<Rightarrow> (frame \<Rightarrow> bool) \<Rightarrow> (frame \<Rightarrow> u32 \<Rightarrow> protocol_error + target_info) \<Rightarrow> session_options
     \<Rightarrow> int \<Rightarrow> log_event list \<Rightarrow> 'w \<Rightarrow> (target_info outcome \<times> log_event list \<times> 'w) option" where
  "handshake W is_status parse opts wait log w =
     (case io id (wire_set_baud W (handshake_baud opts)) log w of
        (Failed e, log, w) \<Rightarrow> Some (Failed e, log, w)
      | (Panicked, log, w) \<Rightarrow> Some (Panicked, log, w)
      | (Done _, log, w) \<Rightarrow>
          (case clock_now W w of
             (started, w) \<Rightarrow>
               handshake_loop W is_status parse (handshake_baud opts) wait started receiver_new
                 (started - PULSE_EVERY) started 0 log w))"

end
