(* ===== verification/Driver_Run.thy ===== *)
theory Driver_Run imports Driver begin

text \<open>
  What \<open>run\<close> does to the wire and when it returns. \<open>taped\<close> wraps any wire in one
  that also records the operations called on it, so the theorems speak of the operations
  on an arbitrary wire: they are those of the plan, in order, up to the point the
  run stops. The second part shows that a run returns when the clock advances.
\<close>

section \<open>A wire with a tape\<close>

datatype wire_event =
    WriteEvt "u8 list"
  | ReadEvt
  | BaudEvt u32
  | FlushEvt
  | DrainEvt
  | SleepEvt int

definition tape_call :: "wire_event \<Rightarrow> ('w \<Rightarrow> 'a \<times> 'w) \<Rightarrow> 'w \<times> wire_event list \<Rightarrow> 'a \<times> 'w \<times> wire_event list" where
  "tape_call e m = (\<lambda>(w, tape). (case m w of (x, w') \<Rightarrow> (x, w', tape @ [e])))"

definition taped :: "'w wire \<Rightarrow> ('w \<times> wire_event list) wire" where
  "taped W = \<lparr>
     wire_write_all = (\<lambda>bs. tape_call (WriteEvt bs) (wire_write_all W bs)),
     wire_read = (\<lambda>n. tape_call ReadEvt (wire_read W n)),
     wire_set_baud = (\<lambda>b. tape_call (BaudEvt b) (wire_set_baud W b)),
     wire_flush = tape_call FlushEvt (wire_flush W),
     wire_baud = (\<lambda>(w, tape). wire_baud W w),
     wire_drain = tape_call DrainEvt (wire_drain W),
     clock_now = (\<lambda>(w, tape). (case clock_now W w of (t, w') \<Rightarrow> (t, w', tape))),
     clock_sleep = (\<lambda>d (w, tape). (clock_sleep W d w, tape @ [SleepEvt d]))\<rparr>"

text \<open>The operations but the reads, and the replies of a log.\<close>

definition commands :: "wire_event list \<Rightarrow> wire_event list" where
  "commands = filter (\<lambda>e. e \<noteq> ReadEvt)"

fun log_reply :: "log_event \<Rightarrow> frame list" where
  "log_reply (LogReply f) = [f]"
| "log_reply _ = []"

definition replies :: "log_event list \<Rightarrow> frame list" where
  "replies log = concat (map log_reply log)"

lemma commands_simps [simp]:
  "commands [] = []" "commands (xs @ ys) = commands xs @ commands ys"
  by (simp_all add: commands_def)

lemma replies_simps [simp]:
  "replies [] = []" "replies (xs @ ys) = replies xs @ replies ys" "replies [e] = log_reply e"
  by (simp_all add: replies_def)

text \<open>What a step of the plan does to the wire.\<close>

definition retune_events :: "drain_config \<Rightarrow> u32 option \<Rightarrow> wire_event list" where
  "retune_events cfg after =
     (case after of
        None \<Rightarrow> []
      | Some b \<Rightarrow>
          (if drain_mode cfg = TcDrain then [DrainEvt] else [])
          @ (if 0 < margin_ms cfg then [SleepEvt (millis (margin_ms cfg))] else []) @ [BaudEvt b])"

definition send_events :: "drain_config \<Rightarrow> u8 list \<Rightarrow> u32 option \<Rightarrow> u32 option \<Rightarrow> wire_event list" where
  "send_events cfg bytes before after =
     (case before of None \<Rightarrow> [] | Some b \<Rightarrow> [BaudEvt b]) @ [WriteEvt bytes, FlushEvt]
     @ retune_events cfg after"

definition step_events :: "drain_config \<Rightarrow> step \<Rightarrow> wire_event list" where
  "step_events cfg st =
     send_events cfg (encode (frame st)) (retune_before_send st) (retune_after_send st)"

lemma commands_send_events [simp]: "commands (send_events cfg bs b a) = send_events cfg bs b a"
  by (auto simp: commands_def send_events_def retune_events_def split: option.splits)

section \<open>The send arm\<close>

text \<open>
  \<open>emits s m A\<close>: run on a taped wire, \<open>m\<close> puts \<open>A\<close> on the tape, or fails with an I/O
  error behind a prefix of \<open>A\<close>; it logs no reply and never panics.
\<close>

definition emits :: "session \<Rightarrow> ('w \<times> wire_event list, 'a) driver \<Rightarrow> wire_event list \<Rightarrow> bool" where
  "emits s m A \<longleftrightarrow> (\<forall>log w tape ex log' w' tape'.
     m log (w, tape) = (ex, log', (w', tape')) \<longrightarrow>
       replies log' = replies log \<and>
       (case ex of
          Done _ \<Rightarrow> tape' = tape @ A
        | Failed e \<Rightarrow> (\<exists>x. e = wrap s (Io x)) \<and> (\<exists>B. prefix B A \<and> tape' = tape @ B)
        | Panicked \<Rightarrow> False))"

named_theorems emits_intros

lemma emits_ret [emits_intros]: "emits s (ret x) []"
  by (simp add: emits_def ret_def)

lemma emits_say [emits_intros]: "log_reply e = [] \<Longrightarrow> emits s (say e) []"
  by (auto simp: emits_def say_def)

lemma emits_andthen [emits_intros]:
  assumes "emits s m A" and "\<And>x. emits s (f x) B"
  shows "emits s (andthen m f) (A @ B)"
  unfolding emits_def
proof (intro allI impI)
  fix log w tape ex log' w' tape'
  assume r: "andthen m f log (w, tape) = (ex, log', (w', tape'))"
  obtain ex1 log1 w1 tape1 where m: "m log (w, tape) = (ex1, log1, (w1, tape1))" by (metis prod_cases4)
  with assms(1) have m': "replies log1 = replies log" "case ex1 of Done _ \<Rightarrow> tape1 = tape @ A
      | Failed e \<Rightarrow> (\<exists>x. e = wrap s (Io x)) \<and> (\<exists>B. prefix B A \<and> tape1 = tape @ B) | Panicked \<Rightarrow> False"
    by (auto simp: emits_def)
  show "replies log' = replies log \<and> (case ex of Done _ \<Rightarrow> tape' = tape @ A @ B
      | Failed e \<Rightarrow> (\<exists>x. e = wrap s (Io x)) \<and> (\<exists>C. prefix C (A @ B) \<and> tape' = tape @ C) | Panicked \<Rightarrow> False)"
  proof (cases ex1)
    case (Done x)
    with r m have "f x log1 (w1, tape1) = (ex, log', (w', tape'))" by (simp add: andthen_def)
    with assms(2) [of x] m' Done show ?thesis
      unfolding emits_def by (fastforce split: outcome.splits)
  next
    case (Failed e)
    with r m m' show ?thesis by (auto simp: andthen_def intro: prefix_append)
  next
    case Panicked
    with m' show ?thesis by simp
  qed
qed

lemma emits_io [emits_intros]: "emits s (io (wrap s) (tape_call e m)) [e]"
  by (auto simp: emits_def io_def tape_call_def split: sum.splits prod.splits)

lemma emits_sleep [emits_intros]:
  "emits s (pass (\<lambda>w. ((), clock_sleep (taped W) d w))) [SleepEvt d]"
  by (auto simp: emits_def pass_def taped_def split: prod.splits)

lemma taped_calls:
  "wire_write_all (taped W) bs = tape_call (WriteEvt bs) (wire_write_all W bs)"
  "wire_set_baud (taped W) b = tape_call (BaudEvt b) (wire_set_baud W b)"
  "wire_flush (taped W) = tape_call FlushEvt (wire_flush W)"
  "wire_drain (taped W) = tape_call DrainEvt (wire_drain W)"
  by (simp_all add: taped_def)

lemma emits_if [emits_intros]:
  "(c \<Longrightarrow> emits s m A) \<Longrightarrow> (\<not> c \<Longrightarrow> emits s m' B) \<Longrightarrow> emits s (if c then m else m') (if c then A else B)"
  by simp

lemma emits_retune:
  "emits s (case before of
       Some b \<Rightarrow> andthen (io (wrap s) (wire_set_baud (taped W) b)) (\<lambda>_. ret receiver_new)
     | None \<Rightarrow> ret rx) (case before of None \<Rightarrow> [] | Some b \<Rightarrow> [BaudEvt b])"
proof (cases before)
  case (Some b)
  have "emits s (andthen (io (wrap s) (wire_set_baud (taped W) b)) (\<lambda>_. ret receiver_new)) ([BaudEvt b] @ [])"
    unfolding taped_calls by (intro emits_intros)
  with Some show ?thesis by simp
qed (simp add: emits_ret)

lemma emits_send_frame:
  "emits s (send_frame (taped W) cfg s lbl bs before after rx) (send_events cfg bs before after)"
proof -
  let ?settle = "max 0 (margin_ms cfg)"
  have after: "emits s
      (case after of
          None \<Rightarrow> ret rx
        | Some b \<Rightarrow>
            andthen (if drain_mode cfg = TcDrain then io (wrap s) (wire_drain (taped W)) else ret ()) (\<lambda>_.
            let settle = ?settle
            in andthen
                 (if 0 < settle then pass (\<lambda>w. ((), clock_sleep (taped W) (millis settle) w)) else ret ()) (\<lambda>_.
               andthen (io (wrap s) (wire_set_baud (taped W) b)) (\<lambda>_.
               andthen (say (LogNote (Switched (of_int settle) b))) (\<lambda>_.
               ret receiver_new)))))
      (retune_events cfg after)" for rx
  proof (cases after)
    case (Some b)
    have "emits s
        (andthen (if drain_mode cfg = TcDrain then io (wrap s) (wire_drain (taped W)) else ret ()) (\<lambda>_.
            andthen
                 (if 0 < ?settle then pass (\<lambda>w. ((), clock_sleep (taped W) (millis ?settle) w)) else ret ()) (\<lambda>_.
               andthen (io (wrap s) (wire_set_baud (taped W) b)) (\<lambda>_.
               andthen (say (LogNote (Switched (of_int ?settle) b))) (\<lambda>_.
               ret receiver_new)))))
        ((if drain_mode cfg = TcDrain then [DrainEvt] else [])
          @ (if 0 < ?settle then [SleepEvt (millis ?settle)] else []) @ [BaudEvt b] @ [] @ [])"
      unfolding taped_calls by (intro emits_intros) simp
    with Some show ?thesis by (auto simp: retune_events_def Let_def max_def)
  qed (simp add: emits_ret retune_events_def)
  have "emits s (send_frame (taped W) cfg s lbl bs before after rx)
      ((case before of None \<Rightarrow> [] | Some b \<Rightarrow> [BaudEvt b]) @ [] @ [WriteEvt bs] @ [FlushEvt]
        @ retune_events cfg after)"
    unfolding send_frame_def
    by (intro emits_andthen emits_retune after) (simp_all add: taped_calls emits_intros)
  then show ?thesis by (simp add: send_events_def)
qed

section \<open>Waiting for a reply\<close>

lemma replies_log_discarded: "log_discarded rx log = (rx', log') \<Longrightarrow> replies log' = replies log"
  by (auto simp: log_discarded_def split: prod.splits if_splits)

definition bounded_reads :: "'w wire \<Rightarrow> bool" where
  "bounded_reads W \<longleftrightarrow> (\<forall>n w. case wire_read W n w of (Inr bs, _) \<Rightarrow> length bs \<le> n | _ \<Rightarrow> True)"

definition await_result ::
    "'w wire \<Rightarrow> session \<Rightarrow> string \<Rightarrow> u64 \<Rightarrow> log_event list \<Rightarrow> 'w \<times> wire_event list
     \<Rightarrow> frame outcome \<times> receiver \<times> log_event list \<times> 'w \<times> wire_event list \<Rightarrow> bool" where
  "await_result W s lbl ms log wt y =
     (case y of (ex, rx', log', wt') \<Rightarrow>
        replies log' = replies log \<and> commands (snd wt') = commands (snd wt) \<and>
        (\<forall>e. ex = Failed e \<longrightarrow> (\<exists>x. e = wrap s (Io x)) \<or> e = wrap s (Timeout lbl ms)) \<and>
        (ex = Panicked \<longrightarrow> \<not> bounded_reads W))"

lemma taped_now: "clock_now (taped W) (w, tape) = (t, wt') \<Longrightarrow> snd wt' = tape"
  by (auto simp: taped_def split: prod.splits)

lemma taped_read:
  "wire_read (taped W) n wt = (r, wt') \<Longrightarrow>
     commands (snd wt') = commands (snd wt) \<and> (\<exists>w'. wire_read W n (fst wt) = (r, w'))"
  by (cases wt) (auto simp: taped_def tape_call_def commands_def split: prod.splits)

lemma await_taped_gen:
  assumes "await_reply Wt s lbl ms deadline rx log wt = Some y"
  shows "Wt = taped W \<longrightarrow> await_result W s lbl ms log wt y"
  using assms
proof (induction rule: await_reply.raw_induct [rotated, consumes 1, case_names step])
  case (step await Wt s lbl ms deadline rx log wt y)
  show ?case
  proof
    assume W: "Wt = taped W"
    note body = step(2) [unfolded W]
    obtain res rx1 where nf: "next_frame rx = (res, rx1)" by (cases "next_frame rx")
    show "await_result W s lbl ms log wt y"
    proof (cases res)
      case (Some r)
      obtain rx2 log2 where d: "log_discarded rx1 log = (rx2, log2)" by (cases "log_discarded rx1 log")
      note rd = replies_log_discarded [OF d]
      show ?thesis
      proof (cases r)
        case (Inl e)
        with body nf Some d have "await (taped W) s lbl ms deadline rx2 (log2 @ [LogNote (Rehunting e)]) wt = Some y"
          by simp
        with step(1) have "await_result W s lbl ms (log2 @ [LogNote (Rehunting e)]) wt y" by blast
        with rd show ?thesis by (simp add: await_result_def)
      next
        case (Inr f)
        with body nf Some d have "y = (Done f, rx2, log2, wt)" by simp
        with rd show ?thesis by (simp add: await_result_def)
      qed
    next
      case None
      obtain w tape where wt: "wt = (w, tape)" by (cases wt)
      obtain t wt1 where now: "clock_now (taped W) wt = (t, wt1)" by (cases "clock_now (taped W) wt")
      then have t1: "snd wt1 = snd wt" unfolding wt by (auto dest: taped_now)
      obtain r wt2 where rd: "wire_read (taped W) 512 wt1 = (r, wt2)" by (cases "wire_read (taped W) 512 wt1")
      note t2 = taped_read [OF rd]
      consider "deadline \<le> t" | e where "\<not> deadline \<le> t" "r = Inl e"
        | bs where "\<not> deadline \<le> t" "r = Inr bs" "512 < length bs"
        | bs where "\<not> deadline \<le> t" "r = Inr bs" "\<not> 512 < length bs" by (cases r) auto
      then show ?thesis
      proof cases
        case 1
        with body nf None now have "y = (Failed (wrap s (Timeout lbl ms)), rx1, log, wt1)" by simp
        with t1 show ?thesis by (simp add: await_result_def)
      next
        case 2
        with body nf None now rd have "y = (Failed (wrap s (Io e)), rx1, log, wt2)" by simp
        with t1 t2 show ?thesis by (auto simp: await_result_def)
      next
        case 3
        with body nf None now rd have "y = (Panicked, rx1, log, wt2)" by simp
        moreover have "\<not> bounded_reads W"
          using t2 3 unfolding bounded_reads_def by (metis (mono_tags, lifting) case_prod_conv linorder_not_less sum.simps(6))
        ultimately show ?thesis using t1 t2 by (auto simp: await_result_def)
      next
        case 4
        with body nf None now rd have
          "await (taped W) s lbl ms deadline (if 0 < length bs then feed bs rx1 else rx1) log wt2 = Some y"
          by simp
        with step(1) have "await_result W s lbl ms log wt2 y" by blast
        with t1 t2 show ?thesis by (auto simp: await_result_def)
      qed
    qed
  qed
qed

lemmas await_taped = await_taped_gen [THEN mp, OF _ refl]

section \<open>The run\<close>

fun indeterminate :: "driver_error \<Rightarrow> bool" where
  "indeterminate (IndeterminateFlash _) \<longleftrightarrow> True"
| "indeterminate _ \<longleftrightarrow> False"

text \<open>
  Stop and wait: the operations on the wire lie within those of the first \<open>k\<close> steps and
  the step after them, and the replies begin with fitting ones for those of the \<open>k\<close> steps that
  await one.
\<close>

definition stop_and_wait ::
    "drain_config \<Rightarrow> step list \<Rightarrow> wire_event list \<times> frame list \<Rightarrow> wire_event list \<times> frame list \<Rightarrow> bool" where
  "stop_and_wait cfg sts = (\<lambda>(cmds, rs) (cmds', rs').
     (\<exists>k fs fs'. k \<le> length sts \<and> prefix cmds' (cmds @ concat (map (step_events cfg) (take (Suc k) sts)))
        \<and> rs' = rs @ fs @ fs' \<and> list_all2 reply_fits (awaited (take k sts)) fs))"

lemma stop_and_wait_Nil: "stop_and_wait cfg [] (cmds, rs) (cmds, rs)"
  by (auto simp: stop_and_wait_def)

lemma stop_and_wait_first:
  assumes "prefix cmds' (cmds @ step_events cfg st)"
  shows "stop_and_wait cfg (st # sts) (cmds, rs) (cmds', rs @ fs')"
  unfolding stop_and_wait_def prod.case
  by (rule exI [of _ 0], rule exI [of _ "[]"], rule exI [of _ fs']) (simp add: assms)

lemma stop_and_wait_step:
  assumes "stop_and_wait cfg sts (cmds @ step_events cfg st, rs @ fs) y" and "list_all2 reply_fits (awaited [st]) fs"
  shows "stop_and_wait cfg (st # sts) (cmds, rs) y"
proof -
  obtain cmds' rs' where y: "y = (cmds', rs')" by (cases y)
  from assms(1) obtain k gs gs' where k: "k \<le> length sts"
    "prefix cmds' (cmds @ step_events cfg st @ concat (map (step_events cfg) (take (Suc k) sts)))"
    "rs' = rs @ (fs @ gs) @ gs'" "list_all2 reply_fits (awaited (take k sts)) gs"
    by (auto simp: y stop_and_wait_def)
  have "awaited (take (Suc k) (st # sts)) = awaited [st] @ awaited (take k sts)" by simp
  with assms(2) k(4) have "list_all2 reply_fits (awaited (take (Suc k) (st # sts))) (fs @ gs)"
    by (simp only: list_all2_appendI)
  with k(1-3) show ?thesis unfolding y stop_and_wait_def prod.case
    by (intro exI [of _ "Suc k"] exI [of _ "fs @ gs"] exI [of _ gs']) simp
qed

lemma stop_and_wait_prefix:
  assumes "stop_and_wait cfg sts (cmds, rs) (cmds', rs')"
  shows "prefix cmds' (cmds @ concat (map (step_events cfg) sts))"
proof -
  from assms obtain k where "prefix cmds' (cmds @ concat (map (step_events cfg) (take k sts)))"
    by (auto simp: stop_and_wait_def)
  moreover have "sts = take k sts @ drop k sts" by simp
  then have "concat (map (step_events cfg) sts) =
      concat (map (step_events cfg) (take k sts)) @ concat (map (step_events cfg) (drop k sts))"
    by (metis concat_append map_append)
  ultimately show ?thesis by (metis append.assoc prefix_prefix)
qed

text \<open>
  The tape and the session agree: the operations on the wire are those of the steps \<open>pre\<close>
  and part of those of at most one more; when the session awaits a reply, that
  step is its current one, otherwise it is one nobody answers, already behind it.
\<close>

definition tape_at ::
    "drain_config \<Rightarrow> step list \<Rightarrow> wire_event list \<Rightarrow> wire_event list \<Rightarrow> session \<Rightarrow> bool" where
  "tape_at cfg sts cmds cmds' s \<longleftrightarrow>
     (\<exists>pre cur rest B. sts = pre @ cur @ rest \<and> length cur \<le> 1
        \<and> cmds' = cmds @ concat (map (step_events cfg) pre) @ B
        \<and> prefix B (concat (map (step_events cfg) cur))
        \<and> (if awaiting s then remaining s = cur @ rest \<and> cur \<noteq> []
           else remaining s = rest \<and> (\<forall>st \<in> set cur. expect st = Nothing)))"

lemma tape_at_Nil: "remaining s = [] \<Longrightarrow> \<not> awaiting s \<Longrightarrow> tape_at cfg [] cmds cmds s"
  by (simp add: tape_at_def)

lemma tape_at_first:
  assumes "prefix cmds' (cmds @ step_events cfg st)" and "prefix cmds cmds'"
    and "remaining s = (if awaiting s then st # sts else sts)" and "awaiting s \<or> expect st = Nothing"
  shows "tape_at cfg (st # sts) cmds cmds' s"
proof -
  from assms(2) obtain B where B: "cmds' = cmds @ B" by (rule prefixE)
  with assms(1) have "prefix B (step_events cfg st)" by simp
  with B assms(3,4) show ?thesis unfolding tape_at_def
    by (intro exI [of _ "[]"] exI [of _ "[st]"] exI [of _ sts] exI [of _ B]) auto
qed

lemma tape_at_step: "tape_at cfg sts (cmds @ step_events cfg st) cmds' s \<Longrightarrow> tape_at cfg (st # sts) cmds cmds' s"
  unfolding tape_at_def
proof (elim exE conjE)
  fix pre cur rest B
  assume a: "sts = pre @ cur @ rest" "length cur \<le> 1"
    "cmds' = (cmds @ step_events cfg st) @ concat (map (step_events cfg) pre) @ B"
    "prefix B (concat (map (step_events cfg) cur))"
    "if awaiting s then remaining s = cur @ rest \<and> cur \<noteq> []
     else remaining s = rest \<and> (\<forall>st \<in> set cur. expect st = Nothing)"
  then show "\<exists>pre cur rest B. st # sts = pre @ cur @ rest \<and> length cur \<le> 1
      \<and> cmds' = cmds @ concat (map (step_events cfg) pre) @ B
      \<and> prefix B (concat (map (step_events cfg) cur))
      \<and> (if awaiting s then remaining s = cur @ rest \<and> cur \<noteq> []
         else remaining s = rest \<and> (\<forall>st \<in> set cur. expect st = Nothing))"
    by (intro exI [of _ "st # pre"] exI [of _ cur] exI [of _ rest] exI [of _ B]) simp
qed

text \<open>
  The end of a run over the steps still to be done: the session is a good one,
  the wire saw a prefix of the operations of the steps, one step after the other, and all of
  them when the run succeeds; then every awaited step was answered by a fitting reply. An
  error is a plain one, wrapped by the state of the session it leaves.
\<close>

definition run_result ::
    "'w wire \<Rightarrow> drain_config \<Rightarrow> step list \<Rightarrow> step list \<Rightarrow> log_event list \<Rightarrow> 'w \<times> wire_event list
     \<Rightarrow> unit outcome \<times> session \<times> log_event list \<times> 'w \<times> wire_event list \<Rightarrow> bool" where
  "run_result W cfg all sts log wt y =
     (case y of (ex, s', log', wt') \<Rightarrow>
        session_inv s' \<and> steps s' = all
        \<and> stop_and_wait cfg sts (commands (snd wt), replies log) (commands (snd wt'), replies log')
        \<and> tape_at cfg sts (commands (snd wt)) (commands (snd wt')) s'
        \<and> (case ex of
             Done _ \<Rightarrow>
               commands (snd wt') = commands (snd wt) @ concat (map (step_events cfg) sts)
               \<and> (\<exists>fs. replies log' = replies log @ fs \<and> list_all2 reply_fits (awaited sts) fs)
               \<and> remaining s' = []
           | Failed e \<Rightarrow> \<exists>e0. \<not> indeterminate e0 \<and> e = wrap s' e0
           | Panicked \<Rightarrow> \<not> bounded_reads W))"

lemma run_result_step:
  assumes "run_result W cfg all sts log1 wt1 y"
    and "commands (snd wt1) = commands (snd wt) @ step_events cfg st"
    and "replies log1 = replies log @ fs" and "list_all2 reply_fits (awaited [st]) fs"
  shows "run_result W cfg all (st # sts) log wt y"
proof -
  obtain ex s' log' w' tape' where y: "y = (ex, s', log', w', tape')" by (metis prod_cases5)
  have aw: "awaited (st # sts) = awaited [st] @ awaited sts" by simp
  from assms(1) have "stop_and_wait cfg sts (commands (snd wt) @ step_events cfg st, replies log @ fs)
      (commands tape', replies log')" by (simp add: y run_result_def assms(2,3))
  note sw = stop_and_wait_step [OF this assms(4)]
  from assms(1) have "tape_at cfg sts (commands (snd wt) @ step_events cfg st) (commands tape') s'"
    by (simp add: y run_result_def assms(2))
  note ta = tape_at_step [OF this]
  from assms sw ta show ?thesis
    unfolding y aw run_result_def
    by (cases ex) (auto simp del: awaited_simps intro!: list_all2_appendI)
qed

lemma run_result_stop:
  assumes "session_inv s'" and "steps s' = all"
    and "prefix (commands (snd wt')) (commands (snd wt) @ step_events cfg st)"
    and "prefix (commands (snd wt)) (commands (snd wt'))"
    and "remaining s' = (if awaiting s' then st # sts else sts)" and "awaiting s' \<or> expect st = Nothing"
    and "\<exists>fs. replies log' = replies log @ fs"
    and "case ex of Done _ \<Rightarrow> False | Failed e \<Rightarrow> \<exists>e0. \<not> indeterminate e0 \<and> e = wrap s' e0
         | Panicked \<Rightarrow> \<not> bounded_reads W"
  shows "run_result W cfg all (st # sts) log wt (ex, s', log', wt')"
proof -
  from assms(7) obtain fs where "replies log' = replies log @ fs" ..
  with assms stop_and_wait_first [OF assms(3), of sts "replies log" fs] tape_at_first [OF assms(3-6)] show ?thesis
    by (simp add: run_result_def split: outcome.splits)
qed

lemma emitsD:
  assumes "emits s m A" and "m log wt = (ex, log', wt')"
  shows "replies log' = replies log"
    and "case ex of Done _ \<Rightarrow> snd wt' = snd wt @ A
      | Failed e \<Rightarrow> (\<exists>x. e = wrap s (Io x)) \<and> (\<exists>B. prefix B A \<and> snd wt' = snd wt @ B)
      | Panicked \<Rightarrow> False"
  using assms by (cases wt; cases wt'; simp add: emits_def)+

lemma prefix_commands: "prefix B (send_events cfg bs b a) \<Longrightarrow> prefix (commands B) (send_events cfg bs b a)"
  by (metis commands_send_events commands_simps(2) prefix_def)

text \<open>The arms of the loop behind a sent frame: the reply, the wait, the send itself.\<close>

lemma run_reply_arm:
  assumes inv: "session_inv s" "awaiting s" and rem: "remaining s = st # sts"
    and ex: "expect st \<noteq> Nothing"
    and t: "commands (snd wt1) = commands (snd wt) @ step_events cfg st"
    and r: "replies log1 = replies log"
    and IH: "\<And>rx s log y. session_inv s \<Longrightarrow> \<not> awaiting s \<Longrightarrow> loop rx s log wt1 = Some y \<Longrightarrow>
      run_result W cfg (steps s) (remaining s) log wt1 y"
    and body: "(case log_discarded rx log1 of (rx, log) \<Rightarrow>
        (case on_reply f s of
           None \<Rightarrow> Some (Panicked, s, log @ [LogReply f], wt1)
         | Some (Inl e, s) \<Rightarrow> Some (Failed (wrap s (SessionFailed e)), s, log @ [LogReply f], wt1)
         | Some (Inr _, s) \<Rightarrow> loop rx s (log @ [LogReply f]) wt1)) = Some y"
  shows "run_result W cfg (steps s) (st # sts) log wt y"
proof -
  obtain rx2 log2 where d: "log_discarded rx log1 = (rx2, log2)" by (cases "log_discarded rx log1")
  have r2: "replies (log2 @ [LogReply f]) = replies log @ [f]"
    using replies_log_discarded [OF d] r by simp
  show ?thesis
  proof (cases "reply_fits st f")
    case True
    from on_reply_fits [OF inv rem True] obtain s2 where
      o2: "on_reply f s = Some (Inr (), s2)" and s2: "session_inv s2" "\<not> awaiting s2"
        "remaining s2 = sts" by blast
    have "loop rx2 s2 (log2 @ [LogReply f]) wt1 = Some y" using body d o2 by simp
    from IH [OF s2(1,2) this] s2 on_reply_steps [OF o2]
    have "run_result W cfg (steps s) sts (log2 @ [LogReply f]) wt1 y" by simp
    then show ?thesis by (rule run_result_step [where fs = "[f]"]) (use t r2 True ex in auto)
  next
    case False
    from walk.answer_misfits [OF inv rem False] obtain e where o2: "on_reply f s = Some (Inl e, s)" by blast
    have y: "y = (Failed (wrap s (SessionFailed e)), s, log2 @ [LogReply f], wt1)"
      using body d o2 by simp
    show ?thesis unfolding y using inv rem t r2
      by (intro run_result_stop) (auto intro: exI [of _ "SessionFailed e"])
  qed
qed

lemma run_await_arm:
  assumes inv: "session_inv s" "awaiting s" and rem: "remaining s = st # sts"
    and ex: "expect st \<noteq> Nothing"
    and t: "commands (snd wt1) = commands (snd wt) @ step_events cfg st"
    and r: "replies log1 = replies log"
    and IH: "\<And>rx s log wt y. session_inv s \<Longrightarrow> \<not> awaiting s \<Longrightarrow> loop rx s log wt = Some y \<Longrightarrow>
      run_result W cfg (steps s) (remaining s) log wt y"
    and body: "(case clock_now (taped W) wt1 of (t, w) \<Rightarrow>
        (case await_reply (taped W) s lbl ms (t + millis (int (unat ms))) rx log1 w of
           None \<Rightarrow> None
         | Some (Failed e, rx, log, w) \<Rightarrow> Some (Failed e, s, log, w)
         | Some (Panicked, rx, log, w) \<Rightarrow> Some (Panicked, s, log, w)
         | Some (Done f, rx, log, w) \<Rightarrow>
             (case log_discarded rx log of (rx, log) \<Rightarrow>
               (case on_reply f s of
                  None \<Rightarrow> Some (Panicked, s, log @ [LogReply f], w)
                | Some (Inl e, s) \<Rightarrow> Some (Failed (wrap s (SessionFailed e)), s, log @ [LogReply f], w)
                | Some (Inr _, s) \<Rightarrow> loop rx s (log @ [LogReply f]) w)))) = Some y"
  shows "run_result W cfg (steps s) (st # sts) log wt y"
proof -
  obtain t0 wt2 where now: "clock_now (taped W) wt1 = (t0, wt2)" by (cases "clock_now (taped W) wt1")
  have t2: "snd wt2 = snd wt1" using now by (cases wt1) (auto dest: taped_now)
  let ?await = "await_reply (taped W) s lbl ms (t0 + millis (int (unat ms))) rx log1 wt2"
  from body now obtain ex2 rx2 log2 wt3 where aw: "?await = Some (ex2, rx2, log2, wt3)"
    by (cases ?await) auto
  note a = await_taped [OF this]
  then have t3: "commands (snd wt3) = commands (snd wt) @ step_events cfg st"
    and r3: "replies log2 = replies log"
    using t2 t r by (simp_all add: await_result_def)
  show ?thesis
  proof (cases ex2)
    case Panicked
    with body now aw have y: "y = (Panicked, s, log2, wt3)" by simp
    have "\<not> bounded_reads W" using a Panicked by (simp add: await_result_def)
    then show ?thesis unfolding y using inv rem t3 r3 by (intro run_result_stop) auto
  next
    case (Failed e)
    with body now aw have y: "y = (Failed e, s, log2, wt3)" by simp
    from a Failed have "(\<exists>x. e = wrap s (Io x)) \<or> e = wrap s (Timeout lbl ms)"
      by (simp add: await_result_def)
    then have "\<exists>e0. \<not> indeterminate e0 \<and> e = wrap s e0"
      by (metis indeterminate.simps(2) indeterminate.simps(6))
    then show ?thesis unfolding y using inv rem t3 r3 by (intro run_result_stop) auto
  next
    case (Done f)
    with body now aw show ?thesis by (intro run_reply_arm [OF inv rem ex t3 r3 IH]) auto
  qed
qed

lemma run_send_arm:
  assumes inv: "session_inv s" "\<not> awaiting s" and rem: "remaining s = st # sts"
    and act: "next_action s = Some (send_action i st, s1)" and inv1: "session_inv s1"
    and aw: "awaiting s1 = (expect st \<noteq> Nothing)"
    and rem1: "remaining s1 = (if expect st = Nothing then sts else st # sts)"
    and IH: "\<And>rx s log wt y. session_inv s \<Longrightarrow> \<not> awaiting s \<Longrightarrow> loop rx s log wt = Some y \<Longrightarrow>
      run_result W cfg (steps s) (remaining s) log wt y"
    and body: "(case send_frame (taped W) cfg s1 (label st) (encode (frame st))
          (retune_before_send st) (retune_after_send st) rx log wt of
        (Failed e, log, w) \<Rightarrow> Some (Failed e, s1, log, w)
      | (Panicked, log, w) \<Rightarrow> Some (Panicked, s1, log, w)
      | (Done rx, log, w) \<Rightarrow>
          if \<not> expect st \<noteq> Nothing then loop rx s1 log w
          else (case clock_now (taped W) w of (t, w) \<Rightarrow>
            (case await_reply (taped W) s1 (label st) (timeout_ms st) (t + millis (int (unat (timeout_ms st)))) rx log w of
               None \<Rightarrow> None
             | Some (Failed e, rx, log, w) \<Rightarrow> Some (Failed e, s1, log, w)
             | Some (Panicked, rx, log, w) \<Rightarrow> Some (Panicked, s1, log, w)
             | Some (Done f, rx, log, w) \<Rightarrow>
                 (case log_discarded rx log of (rx, log) \<Rightarrow>
                   (case on_reply f s1 of
                      None \<Rightarrow> Some (Panicked, s1, log @ [LogReply f], w)
                    | Some (Inl e, s) \<Rightarrow> Some (Failed (wrap s (SessionFailed e)), s, log @ [LogReply f], w)
                    | Some (Inr _, s) \<Rightarrow> loop rx s (log @ [LogReply f]) w))))) = Some y"
  shows "run_result W cfg (steps s) (st # sts) log wt y"
proof -
  have st1: "steps s1 = steps s" using next_action_steps [OF act] .
  let ?send = "send_frame (taped W) cfg s1 (label st) (encode (frame st))
    (retune_before_send st) (retune_after_send st) rx"
  obtain ex log1 wt1 where send: "?send log wt = (ex, log1, wt1)" by (metis prod_cases3)
  have "emits s1 ?send (step_events cfg st)" unfolding step_events_def by (rule emits_send_frame)
  note r1 = emitsD(1) [OF this send] and e1 = emitsD(2) [OF this send]
  show ?thesis
  proof (cases ex)
    case Panicked
    with e1 show ?thesis by simp
  next
    case (Failed e)
    with body send have y: "y = (Failed e, s1, log1, wt1)" by simp
    from e1 Failed obtain x B where "e = wrap s1 (Io x)" "prefix B (step_events cfg st)"
      "snd wt1 = snd wt @ B" by auto
    then show ?thesis unfolding y
      by (intro run_result_stop)
        (auto simp: inv1 st1 aw rem1 step_events_def prefix_commands r1 intro: exI [of _ "Io x"])
  next
    case (Done rx1)
    with e1 have t1: "commands (snd wt1) = commands (snd wt) @ step_events cfg st"
      by (simp add: step_events_def)
    show ?thesis
    proof (cases "expect st = Nothing")
      case True
      with body send Done have "loop rx1 s1 log1 wt1 = Some y" by simp
      with IH [OF inv1] aw True have "run_result W cfg (steps s1) (remaining s1) log1 wt1 y" by simp
      then show ?thesis
        using True rem1 st1 t1 r1 by (intro run_result_step [of _ _ _ _ log1 wt1 _ _ _ _ "[]"]) auto
    next
      case False
      with aw rem1 have w: "awaiting s1" "remaining s1 = st # sts" by simp_all
      from body send Done False show ?thesis unfolding st1 [symmetric]
        by (intro run_await_arm [OF inv1 w False t1 r1 IH]) auto
    qed
  qed
qed

lemma run_loop_taped_gen:
  assumes "run_loop Wt cfg rx s log wt = Some y"
  shows "Wt = taped W \<and> session_inv s \<and> \<not> awaiting s \<longrightarrow>
    run_result W cfg (steps s) (remaining s) log wt y"
  using assms
proof (induction rule: run_loop.raw_induct [rotated, consumes 1, case_names step])
  case (step loop Wt cfg rx s log wt y)
  show ?case
  proof
    assume a: "Wt = taped W \<and> session_inv s \<and> \<not> awaiting s"
    then have inv: "session_inv s" "\<not> awaiting s" by simp_all
    note body = step(2) [unfolded a [THEN conjunct1]]
    have IH: "session_inv s \<Longrightarrow> \<not> awaiting s \<Longrightarrow> loop (taped W) cfg rx s log wt = Some y \<Longrightarrow>
        run_result W cfg (steps s) (remaining s) log wt y" for rx s log wt y
      using step(1) [of "taped W"] by blast
    show "run_result W cfg (steps s) (remaining s) log wt y"
    proof (cases "remaining s")
      case Nil
      with inv have "next_action s = Some (Finished, s)" by (simp add: walk.act_done)
      with body have "y = (Done (), s, log, wt)" by simp
      with Nil inv show ?thesis by (simp add: run_result_def stop_and_wait_Nil tape_at_Nil)
    next
      case (Cons st sts)
      from next_action_send [OF inv Cons] obtain i s1 where
        act: "next_action s = Some (send_action i st, s1)" and s1: "session_inv s1"
          "awaiting s1 = (expect st \<noteq> Nothing)"
          "remaining s1 = (if expect st = Nothing then sts else st # sts)" by blast
      show ?thesis unfolding Cons
        by (rule run_send_arm [where loop = "loop (taped W) cfg" and rx = rx, OF inv Cons act s1 IH])
          (use body act in \<open>simp_all add: send_action_def\<close>)
    qed
  qed
qed

lemma run_taped:
  "run (taped W) (session_new sts) cfg log wt = Some y \<Longrightarrow> run_result W cfg sts sts log wt y"
  using run_loop_taped_gen [of "taped W" cfg receiver_new "session_new sts" log wt y W]
  by (simp add: run_def remaining_def) (simp add: session_new_def)

lemma run_taped_stops:
  "run (taped W) (session_new sts) cfg log (w, tape0) = Some (ex, s', log', (w', tape)) \<Longrightarrow>
     stop_and_wait cfg sts (commands tape0, replies log) (commands tape, replies log')"
  by (drule run_taped) (simp add: run_result_def)

lemma run_taped_at:
  "run (taped W) (session_new sts) cfg log (w, tape0) = Some (ex, s', log', (w', tape)) \<Longrightarrow>
     session_inv s' \<and> steps s' = sts \<and> tape_at cfg sts (commands tape0) (commands tape) s'"
  by (drule run_taped) (simp add: run_result_def)

lemmas run_taped_prefix = run_taped_stops [THEN stop_and_wait_prefix]

section \<open>Termination\<close>

text \<open>
  The clock a wire carries: \<open>Instant::now\<close> reads it, no operation turns it back, and
  a read takes at least one nanosecond.
\<close>

definition timely :: "'w wire \<Rightarrow> ('w \<Rightarrow> int) \<Rightarrow> bool" where
  "timely W clk \<longleftrightarrow>
     (\<forall>w. fst (clock_now W w) = clk w \<and> clk w \<le> clk (snd (clock_now W w))) \<and>
     (\<forall>n w. clk w < clk (snd (wire_read W n w))) \<and>
     (\<forall>bs w. clk w \<le> clk (snd (wire_write_all W bs w))) \<and>
     (\<forall>w. clk w \<le> clk (snd (wire_flush W w)))"

lemma pending_log_discarded: "log_discarded rx log = (rx', log') \<Longrightarrow> pending rx' = pending rx"
  by (auto simp: log_discarded_def take_discarded_def pending_def)

lemma await_returns:
  assumes "timely W clk"
  shows "\<exists>y. await_reply W s lbl ms deadline rx log w = Some y"
proof (induction "(nat (deadline - clk w), pending rx)" arbitrary: rx log w
    rule: wf_induct_rule [OF wf_lex_prod [OF wf_less_than wf_less_than]])
  case (1 rx w log)
  obtain res rx1 where nf: "next_frame rx = (res, rx1)" by (cases "next_frame rx")
  show ?case
  proof (cases res)
    case (Some r)
    obtain rx2 log2 where d: "log_discarded rx1 log = (rx2, log2)" by (cases "log_discarded rx1 log")
    have "pending rx2 < pending rx" using next_frame_pending nf Some pending_log_discarded [OF d] by simp
    then have "\<exists>y. await_reply W s lbl ms deadline rx2 log' w = Some y" for log'
      by (intro 1) simp
    then show ?thesis using nf Some d by (cases r) (simp_all add: await_reply.simps [of _ _ _ _ _ rx])
  next
    case None
    obtain t w1 where now: "clock_now W w = (t, w1)" by (cases "clock_now W w")
    obtain r w2 where rd: "wire_read W 512 w1 = (r, w2)" by (cases "wire_read W 512 w1")
    have t: "t = clk w" "clk w \<le> clk w1" using assms now unfolding timely_def by (metis fst_conv snd_conv)+
    have lt: "clk w1 < clk w2" using assms rd unfolding timely_def by (metis snd_conv)
    have again: "\<exists>y. await_reply W s lbl ms deadline rx' log w2 = Some y" if "\<not> deadline \<le> t" for rx'
      using t lt that by (intro 1) simp
    show ?thesis
      using nf None now rd again by (cases r) (auto simp: await_reply.simps [of _ _ _ _ _ rx])
  qed
qed

lemma run_loop_returns:
  assumes "timely W clk" and "session_inv s" and "\<not> awaiting s"
  shows "\<exists>y. run_loop W cfg rx s log w = Some y"
  using assms(2,3)
proof (induction "remaining s" arbitrary: s rx log w)
  case Nil
  from Nil.hyps [symmetric] Nil.prems have "next_action s = Some (Finished, s)" by (simp add: walk.act_done)
  then show ?case by (simp add: run_loop.simps)
next
  case (Cons st sts)
  note rem = Cons.hyps(2) [symmetric]
  from next_action_send [OF Cons.prems rem] obtain i s1 where
    act: "next_action s = Some (send_action i st, s1)" and inv1: "session_inv s1"
    and aw: "awaiting s1 = (expect st \<noteq> Nothing)"
    and rem1: "remaining s1 = (if expect st = Nothing then sts else st # sts)" by blast
  obtain ex log1 w1 where send: "send_frame W cfg s1 (label st) (encode (frame st))
      (retune_before_send st) (retune_after_send st) rx log w = (ex, log1, w1)" by (metis prod_cases3)
  obtain t w2 where now: "clock_now W w1 = (t, w2)" by (cases "clock_now W w1")
  show ?case
  proof (cases ex)
    case (Done rx1)
    obtain ex2 rx2 log2 w3 where aw2: "await_reply W s1 (label st) (timeout_ms st)
        (t + millis (int (unat (timeout_ms st)))) rx1 log1 w2 = Some (ex2, rx2, log2, w3)"
      using await_returns [OF assms(1)] by (metis prod_cases4)
    show ?thesis
    proof (cases "expect st = Nothing")
      case True
      with Cons.hyps(1) [of s1] inv1 aw rem1 have "\<exists>y. run_loop W cfg rx1 s1 log1 w1 = Some y" by simp
      then show ?thesis using act send Done True by (simp add: run_loop.simps [of _ _ rx] send_action_def)
    next
      case False
      have "\<exists>y. run_loop W cfg rx3 s2 log3 w3 = Some y" if "on_reply f s1 = Some (Inr (), s2)" for f rx3 s2 log3
      proof -
        have w: "awaiting s1" "remaining s1 = st # sts" using aw rem1 False by simp_all
        have "reply_fits st f" using walk.answer_misfits [OF inv1 w] that by fastforce
        from on_reply_fits [OF inv1 w this] that have "session_inv s2" "\<not> awaiting s2" "sts = remaining s2" by auto
        then show ?thesis using Cons.hyps(1) by blast
      qed
      then show ?thesis using act send Done False now aw2
        by (cases ex2)
          (auto simp: run_loop.simps [of _ _ rx] send_action_def split: option.splits sum.splits prod.splits)
    qed
  qed (use act send in \<open>simp_all add: run_loop.simps [of _ _ rx] send_action_def\<close>)
qed

section \<open>A scripted wire\<close>

text \<open>
  A wire that plays a list of reads, one millisecond each, and then stays silent:
  every further read is a poll of 20 milliseconds that sees nothing. Writes
  succeed. It shows that the hypotheses of the properties can hold.
\<close>

definition scripted :: "(int \<times> u8 list list) wire" where
  "scripted = \<lparr>
     wire_write_all = (\<lambda>_ w. (Inr (), w)),
     wire_read = (\<lambda>n (t, cs). (case cs of
        [] \<Rightarrow> (Inr [], t + millis 20, [])
      | c # cs \<Rightarrow> (Inr (take n c), t + millis 1, cs))),
     wire_set_baud = (\<lambda>_ w. (Inr (), w)), wire_flush = (\<lambda>w. (Inr (), w)),
     wire_baud = (\<lambda>_. 2400), wire_drain = (\<lambda>w. (Inr (), w)),
     clock_now = (\<lambda>(t, cs). (t, t, cs)), clock_sleep = (\<lambda>d (t, cs). (t + d, cs))\<rparr>"

lemma scripted_timely: "timely scripted fst"
  by (auto simp: timely_def scripted_def millis_def split: list.splits)

lemma scripted_bounded: "bounded_reads scripted"
  by (auto simp: bounded_reads_def scripted_def split: list.splits)

lemma taped_timely: "timely W clk \<Longrightarrow> timely (taped W) (clk \<circ> fst)"
  by (auto simp: timely_def taped_def tape_call_def split: prod.splits) (metis fst_conv snd_conv)+

lemma taped_bounded: "bounded_reads (taped W) \<longleftrightarrow> bounded_reads W"
  by (auto simp: bounded_reads_def taped_def tape_call_def split: prod.splits sum.splits)

lemma session_new_idle [simp]: "\<not> awaiting (session_new sts)"
  by (simp add: session_new_def)

lemma scripted_run:
  obtains ex s' log' w' tape where
    "run (taped scripted) (session_new sts) cfg log (w, []) = Some (ex, s', log', (w', tape))"
proof -
  have "\<exists>y. run (taped scripted) (session_new sts) cfg log (w, []) = Some y"
    unfolding run_def by (rule run_loop_returns [OF taped_timely [OF scripted_timely]])
      simp_all
  then show ?thesis using that by (metis prod_cases5)
qed

text \<open>A write step without patience: its wait is over when it starts.\<close>

definition hasty_write :: step where
  "hasty_write = one_write\<lparr>timeout_ms := 0\<rparr>"

lemma next_frame_new: "next_frame receiver_new = (None, receiver_new)"
  by (simp add: next_frame_scan receiver_new_def scan_def)

lemma hasty_run:
  "\<exists>s' log' w' tape. run (taped scripted) (session_new [hasty_write]) drain_config_default [] ((0, []), [])
     = Some (Failed (IndeterminateFlash (Timeout (label one_write) 0)), s', log', (w', tape))"
  by (simp add: run_def run_loop.simps next_action_def session_new_def hasty_write_def one_write_def
      send_frame_def andthen_def ret_def io_def say_def taped_def tape_call_def scripted_def
      await_reply.simps next_frame_new wrap_def flash_is_indeterminate_def millis_def)

section \<open>Properties\<close>

text \<open>
  \<open>run\<close> does to the wire what the plan says and nothing else. On any wire, and
  however the run ends, the operations it calls (reads apart) are a prefix of those of
  the plan's steps in order: for each step the change to the rate it is sent at, the encoded
  frame, a flush, and the drain, the settling pause and the change to the rate it is
  answered at.
\<close>

lemma run_wire_operations:
  assumes "run (taped W) (session_new sts) cfg log (w, []) = Some (ex, s', log', (w', tape))"
  shows "prefix (commands tape) (concat (map (step_events cfg) sts))"
  using run_taped_prefix [OF assms] by simp

text \<open>
  C14: Stop and wait. On any wire, and however the run ends, no step's frame goes out before every
  earlier step that expects a reply has its fitting reply: if the wire saw operations
  behind those of the first \<open>k\<close> steps, the replies logged by then begin with ones that
  pass, one for one and in order, the checks of the awaited ones among these steps.
\<close>

theorem run_stops_and_waits:
  assumes "run (taped W) (session_new sts) cfg log (w, []) = Some (ex, s', log', (w', tape))"
  shows "\<exists>k fs fs'. k \<le> length sts
    \<and> prefix (commands tape) (concat (map (step_events cfg) (take (Suc k) sts)))
    \<and> replies log' = replies log @ fs @ fs' \<and> list_all2 reply_fits (awaited (take k sts)) fs"
  using run_taped_stops [OF assms] by (simp add: stop_and_wait_def)

theorem run_stops_and_waits_witness:
  "\<exists>ex s' log' w' tape k. run (taped scripted) (session_new [one_write]) drain_config_default [] ((0, []), [])
      = Some (ex, s', log', (w', tape))
    \<and> k \<le> 1 \<and> prefix (commands tape) (concat (map (step_events drain_config_default) (take (Suc k) [one_write])))"
proof -
  obtain ex s' log' w' tape where
    r: "run (taped scripted) (session_new [one_write]) drain_config_default [] ((0, []), [])
      = Some (ex, s', log', (w', tape))" by (rule scripted_run)
  from run_stops_and_waits [OF r] obtain k where "k \<le> length [one_write]"
    "prefix (commands tape) (concat (map (step_events drain_config_default) (take (Suc k) [one_write])))" by blast
  then show ?thesis using r by (intro exI conjI) simp_all
qed

text \<open>
  C15: A run that succeeds did everything. It called every operation of every step
  of the plan on the wire, and the replies it logged pass, one for one and in order, the
  checks of the steps that expect a reply; the session is finished and not
  indeterminate.
\<close>

theorem run_success_is_complete:
  assumes "run (taped W) (session_new sts) cfg log (w, []) = Some (Done (), s', log', (w', tape))"
  shows "commands tape = concat (map (step_events cfg) sts)
    \<and> (\<exists>fs. replies log' = replies log @ fs \<and> list_all2 reply_fits (awaited sts) fs)
    \<and> is_finished s' \<and> \<not> flash_is_indeterminate s'"
proof -
  from run_taped [OF assms] have r: "session_inv s'" "steps s' = sts" "remaining s' = []"
    "commands tape = concat (map (step_events cfg) sts)"
    "\<exists>fs. replies log' = replies log @ fs \<and> list_all2 reply_fits (awaited sts) fs"
    by (simp_all add: run_result_def)
  note D = session_inv_D [OF r(1)]
  from r(3) have at: "length sts \<le> at s'" by (simp add: remaining_def r(2))
  then have aw: "\<not> awaiting s'" using D(2) r(2) by auto
  then have "is_finished s'" using at r(2) by (simp add: is_finished_def)
  moreover have "\<not> flash_is_indeterminate s'"
    using D(4,5) aw at r(2) by (auto simp: flash_is_indeterminate_def no_write_after_def)
  ultimately show ?thesis using r(4,5) by blast
qed

theorem run_success_is_complete_witness:
  "\<exists>s' log' w' tape. run (taped scripted) (session_new []) drain_config_default [] ((0, []), [])
      = Some (Done (), s', log', (w', tape)) \<and> commands tape = []"
proof -
  have "run (taped scripted) (session_new []) drain_config_default [] ((0, []), [])
      = Some (Done (), session_new [], [], ((0, []), []))"
    by (simp add: run_def run_loop.simps next_action_def session_new_def)
  moreover from run_success_is_complete [OF this] have "commands [] = []" by simp
  ultimately show ?thesis by (intro exI conjI)
qed



text \<open>
  \<open>run\<close> never panics. On a wire whose reads stay within the buffer they are
  given, no arm that is unreachable in the code is reached and no index is out of range,
  however the run ends.
\<close>

lemma run_never_panics:
  assumes "bounded_reads W"
    and "run (taped W) (session_new sts) cfg log (w, []) = Some (ex, s', log', (w', tape))"
  shows "ex \<noteq> Panicked"
  using run_taped [OF assms(2)] assms(1) by (auto simp: run_result_def)

text \<open>
  \<open>run\<close> returns. If the clock never goes back and every read takes some time, a
  run over any plan ends, on any wire, noise and silence included, because every wait ends at
  the deadline of its step.
\<close>

lemma run_returns:
  assumes "timely W clk"
  shows "\<exists>y. run W (session_new sts) cfg log w = Some y"
  unfolding run_def by (rule run_loop_returns [OF assms]) simp_all

end
