(* ===== verification/Driver_Handshake.thy ===== *)
theory Driver_Handshake imports Driver_Run begin

text \<open>
  What \<open>handshake\<close> returns, what it puts on the wire, and when it returns. The
  family's \<open>is_status_frame\<close> and \<open>parse_status\<close> are parameters.
\<close>

section \<open>Pulses\<close>

definition pulses :: "nat \<Rightarrow> wire_event list" where
  "pulses n = concat (replicate n [WriteEvt [SYNC_BYTE], FlushEvt])"

lemma pulses_simps [simp]: "pulses 0 = []" "pulses (Suc n) = pulses n @ [WriteEvt [SYNC_BYTE], FlushEvt]"
proof -
  have "concat (replicate n xs) @ xs = xs @ concat (replicate n xs)" for xs :: "wire_event list"
    by (induction n) simp_all
  then show "pulses (Suc n) = pulses n @ [WriteEvt [SYNC_BYTE], FlushEvt]"
    unfolding pulses_def by simp
qed (simp add: pulses_def)

lemma commands_evts [simp]:
  "commands [WriteEvt bs] = [WriteEvt bs]" "commands [FlushEvt] = [FlushEvt]" "commands [BaudEvt b] = [BaudEvt b]"
  "commands (WriteEvt bs # es) = WriteEvt bs # commands es" "commands (ReadEvt # es) = commands es"
  "commands (BaudEvt b # es) = BaudEvt b # commands es"
  by (simp_all add: commands_def)

definition pulsing :: "wire_event list \<Rightarrow> bool" where
  "pulsing tape \<longleftrightarrow> (\<exists>n. commands tape = pulses n)"

definition pulsed :: "wire_event list \<Rightarrow> bool" where
  "pulsed tape \<longleftrightarrow> (\<exists>n. prefix (commands tape) (pulses n))"

text \<open>As \<open>emits\<close>, with a choice of what goes on the tape.\<close>

definition emits_in :: "session \<Rightarrow> ('w \<times> wire_event list, 'a) driver \<Rightarrow> wire_event list set \<Rightarrow> bool" where
  "emits_in s m S \<longleftrightarrow> (\<forall>log w tape ex log' w' tape'.
     m log (w, tape) = (ex, log', (w', tape')) \<longrightarrow>
       replies log' = replies log \<and>
       (case ex of
          Done _ \<Rightarrow> \<exists>A \<in> S. tape' = tape @ A
        | Failed e \<Rightarrow> (\<exists>x. e = wrap s (Io x)) \<and> (\<exists>A \<in> S. \<exists>B. prefix B A \<and> tape' = tape @ B)
        | Panicked \<Rightarrow> False))"

lemma emits_in_emits: "emits s m A \<Longrightarrow> A \<in> S \<Longrightarrow> emits_in s m S"
  unfolding emits_def emits_in_def by (fastforce split: outcome.splits)

lemma emits_in_andthen:
  assumes "emits s m []" and "\<And>x. emits_in s (f x) S" and "A \<in> S"
  shows "emits_in s (andthen m f) S"
  unfolding emits_in_def
proof (intro allI impI)
  fix log w tape ex log' w' tape'
  assume r: "andthen m f log (w, tape) = (ex, log', (w', tape'))"
  obtain ex1 log1 w1 tape1 where m: "m log (w, tape) = (ex1, log1, (w1, tape1))" by (metis prod_cases4)
  have m': "replies log1 = replies log" "case ex1 of Done _ \<Rightarrow> tape1 = tape
      | Failed e \<Rightarrow> (\<exists>x. e = wrap s (Io x)) \<and> tape1 = tape | Panicked \<Rightarrow> False"
    using emitsD [OF assms(1) m] by (auto split: outcome.splits)
  show "replies log' = replies log \<and> (case ex of Done _ \<Rightarrow> \<exists>A \<in> S. tape' = tape @ A
      | Failed e \<Rightarrow> (\<exists>x. e = wrap s (Io x)) \<and> (\<exists>A \<in> S. \<exists>B. prefix B A \<and> tape' = tape @ B) | Panicked \<Rightarrow> False)"
  proof (cases ex1)
    case (Done x)
    with r m have "f x log1 (w1, tape1) = (ex, log', (w', tape'))" by (simp add: andthen_def)
    with assms(2) [of x] m' Done show ?thesis by (simp add: emits_in_def)
  next
    case (Failed e)
    with r m have "ex = Failed e" "log' = log1" "tape' = tape1" by (simp_all add: andthen_def)
    with m' Failed assms(3) show ?thesis by auto
  next
    case Panicked
    with m' show ?thesis by simp
  qed
qed

lemma emits_now [emits_intros]: "emits s (pass (clock_now (taped W))) []"
  by (auto simp: emits_def pass_def taped_def split: prod.splits)

lemma wrap_new: "wrap (session_new []) = id"
  by (simp add: wrap_def fun_eq_iff flash_is_indeterminate_def session_new_def)

definition pulse_events :: "wire_event list" where
  "pulse_events = [WriteEvt [SYNC_BYTE], FlushEvt]"

lemma emits_sync_pulse:
  "emits_in (session_new []) (sync_pulse (taped W) rx lp lb) {[], pulse_events}"
proof -
  let ?s = "session_new []"
  have clock: "emits ?s (if c then andthen (pass (clock_now (taped W))) (\<lambda>t. ret (g t)) else ret False) []"
    for c and g :: "int \<Rightarrow> bool"
  proof -
    have "emits ?s (andthen (pass (clock_now (taped W))) (\<lambda>t. ret (g t))) ([] @ [])"
      by (intro emits_intros)
    then show ?thesis by (cases c) (simp_all add: emits_ret)
  qed
  have "emits ?s (andthen (io id (wire_write_all (taped W) [SYNC_BYTE])) (\<lambda>_.
      andthen (io id (wire_flush (taped W))) (\<lambda>_. pass (clock_now (taped W)))))
      ([WriteEvt [SYNC_BYTE]] @ [FlushEvt] @ [])"
    unfolding taped_calls wrap_new [symmetric] by (intro emits_intros)
  then have pulse: "emits_in ?s (if due then andthen (io id (wire_write_all (taped W) [SYNC_BYTE])) (\<lambda>_.
      andthen (io id (wire_flush (taped W))) (\<lambda>_. pass (clock_now (taped W)))) else ret lp)
      {[], pulse_events}" for due
    using emits_ret [of ?s lp] by (auto simp: pulse_events_def intro: emits_in_emits)
  show ?thesis unfolding sync_pulse_def
    by (intro emits_in_andthen [where A = "[]"] clock pulse) simp_all
qed

section \<open>Draining the receiver\<close>

fun log_discard :: "log_event \<Rightarrow> nat" where
  "log_discard (LogDiscarded d) = length d"
| "log_discard _ = 0"

text \<open>The number of bytes a log reports as discarded.\<close>

definition discards :: "log_event list \<Rightarrow> nat" where
  "discards log = sum_list (map log_discard log)"

lemma discards_simps [simp]:
  "discards [] = 0" "discards (xs @ ys) = discards xs + discards ys" "discards [e] = log_discard e"
  by (simp_all add: discards_def)

lemma count_noise_log:
  "count_noise rx noise log = (rx', noise', log') \<Longrightarrow>
     replies log' = replies log \<and> noise' + discards log = noise + discards log'"
  by (auto simp: count_noise_def split: prod.splits if_splits)

definition status_outcome :: "(frame \<Rightarrow> u32 \<Rightarrow> protocol_error + target_info) \<Rightarrow> u32 \<Rightarrow> frame \<Rightarrow> target_info outcome" where
  "status_outcome parse baud f =
     (case parse f baud of Inl e \<Rightarrow> Failed (ProtocolFailed e) | Inr info \<Rightarrow> Done info)"

lemma handshake_drain_result:
  "handshake_drain is_status parse baud rx noise log = (out, rx', noise', log') \<Longrightarrow>
     (case out of
        None \<Rightarrow> replies log' = replies log
      | Some ex \<Rightarrow> \<exists>f. is_status f \<and> replies log' = replies log @ [f] \<and> ex = status_outcome parse baud f)
     \<and> noise' + discards log = noise + discards log'"
proof (induction is_status parse baud rx noise log rule: handshake_drain.induct)
  case (1 is_status parse baud rx noise log)
  obtain res rx1 where nf: "next_frame rx = (res, rx1)" by (cases "next_frame rx")
  note eq = "1.prems" [unfolded handshake_drain.simps [of _ _ _ rx]]
  show ?case
  proof (cases res)
    case None
    with eq nf show ?thesis by auto
  next
    case (Some r)
    obtain rx2 noise2 log2 where c: "count_noise rx1 noise log = (rx2, noise2, log2)" by (metis prod_cases3)
    note cl = count_noise_log [OF c]
    show ?thesis
    proof (cases r)
      case (Inl e)
      with eq nf Some c have "handshake_drain is_status parse baud rx2 noise2
          (log2 @ [LogNote (DiscardingMalformed e)]) = (out, rx', noise', log')" by simp
      from "1.IH"(1) [OF nf [symmetric] Some c [symmetric] refl Inl this] cl
      show ?thesis by (auto split: option.splits)
    next
      case (Inr f)
      show ?thesis
      proof (cases "is_status f")
        case True
        with eq nf Some c Inr have "out = Some (status_outcome parse baud f)" "noise' = noise2"
          "log' = log2 @ [LogReply f]" by (auto simp: status_outcome_def)
        with cl True show ?thesis by auto
      next
        case False
        with eq nf Some c Inr have "handshake_drain is_status parse baud rx2 noise2
            (log2 @ [LogNote (IgnoringFrame (cmd f))]) = (out, rx', noise', log')" by simp
        from "1.IH"(2) [OF nf [symmetric] Some c [symmetric] refl Inr False this] cl
        show ?thesis by (auto split: option.splits)
      qed
    qed
  qed
qed

section \<open>The loop\<close>

definition handshake_result ::
    "'w wire \<Rightarrow> (frame \<Rightarrow> bool) \<Rightarrow> (frame \<Rightarrow> u32 \<Rightarrow> protocol_error + target_info) \<Rightarrow> u32 \<Rightarrow> int \<Rightarrow> nat
     \<Rightarrow> log_event list \<Rightarrow> wire_event list
     \<Rightarrow> target_info outcome \<times> log_event list \<times> 'w \<times> wire_event list \<Rightarrow> bool" where
  "handshake_result W is_status parse baud wait noise log cmds y =
     (case y of (ex, log', wt') \<Rightarrow>
        (\<exists>n. prefix (commands (snd wt')) (cmds @ pulses n))
        \<and> ((\<exists>f. is_status f \<and> replies log' = replies log @ [f] \<and> ex = status_outcome parse baud f)
           \<or> replies log' = replies log
             \<and> (case ex of
                  Done _ \<Rightarrow> False
                | Failed e \<Rightarrow> (\<exists>x. e = Io x) \<or>
                    (\<exists>n. e = NoBootloader (of_int (wait div 1000000)) n \<and> n + discards log = noise + discards log')
                | Panicked \<Rightarrow> \<not> bounded_reads W)))"

lemma handshake_result_step:
  assumes "handshake_result W is_status parse baud wait noise1 log1 (cmds @ E) y"
    and "E = [] \<or> E = pulse_events"
    and "replies log1 = replies log" and "noise1 + discards log = noise + discards log1"
  shows "handshake_result W is_status parse baud wait noise log cmds y"
proof -
  obtain ex log' wt' where y: "y = (ex, log', wt')" by (metis prod_cases3)
  have "\<exists>m. E @ pulses n = pulses m" for n
    using assms(2)
  proof
    assume E: "E = pulse_events"
    have "pulse_events @ pulses n = pulses (Suc n)"
      by (induction n) (simp_all add: pulse_events_def)
    with E show ?thesis by blast
  qed auto
  with assms show ?thesis
    unfolding y handshake_result_def by (auto split: outcome.splits) metis+
qed

lemma prefix_pulses: "A \<in> {[], pulse_events} \<Longrightarrow> prefix B A \<Longrightarrow> \<exists>n. prefix (cmds @ commands B) (cmds @ pulses n)"
proof -
  assume "A \<in> {[], pulse_events}" and "prefix B A"
  then have "B = [] \<or> prefix B (pulses 1)" by (auto simp: pulse_events_def)
  moreover have "prefix B (pulses 1) \<Longrightarrow> commands B = B"
    by (auto simp: prefix_Cons commands_def)
  ultimately show ?thesis by (metis commands_simps(1) prefix_bot.bot_least same_prefix_prefix)
qed

text \<open>The iteration behind a successful pulse: the read, the drain of the receiver.\<close>

lemma handshake_read_arm:
  assumes A: "A \<in> {[], pulse_events}" and w1: "commands (snd wt1) = cmds @ A"
    and r1: "replies log1 = replies log" "discards log1 = discards log"
    and IH: "\<And>rx lb noise log wt. loop rx lb noise log wt = Some y \<Longrightarrow>
      handshake_result W is_status parse baud wait noise log (commands (snd wt)) y"
    and body: "(case wire_read (taped W) 256 wt1 of
        (Inl e, w) \<Rightarrow> Some (Failed (Io e), log1, w)
      | (Inr bs, w) \<Rightarrow>
          if 256 < length bs then Some (Panicked, log1, w)
          else
            (case (if 0 < length bs
                   then (case clock_now (taped W) w of (t, w) \<Rightarrow> (t, feed bs rx, w))
                   else (lb, rx, w)) of
               (lb, rx, w) \<Rightarrow>
                 (case handshake_drain is_status parse baud rx noise log1 of
                    (Some out, rx, noise, log) \<Rightarrow> Some (out, log, w)
                  | (None, rx, noise, log) \<Rightarrow>
                      (case count_noise rx noise log of
                         (rx, noise, log) \<Rightarrow> loop rx lb noise log w)))) = Some y"
  shows "handshake_result W is_status parse baud wait noise log cmds y"
proof -
  obtain r wt2 where rd: "wire_read (taped W) 256 wt1 = (r, wt2)" by (cases "wire_read (taped W) 256 wt1")
  note t2 = taped_read [OF rd]
  obtain n where n: "prefix (cmds @ A) (cmds @ pulses n)"
    using prefix_pulses [OF A, of A cmds] A by (auto simp: pulse_events_def)
  show ?thesis
  proof (cases r)
    case (Inl e)
    with body rd have "y = (Failed (Io e), log1, wt2)" by simp
    with t2 w1 r1 n show ?thesis by (auto simp: handshake_result_def)
  next
    case (Inr bs)
    show ?thesis
    proof (cases "256 < length bs")
      case True
      with body rd Inr have "y = (Panicked, log1, wt2)" by simp
      moreover have "\<not> bounded_reads W"
        using t2 Inr True unfolding bounded_reads_def
        by (metis (mono_tags, lifting) case_prod_conv linorder_not_less sum.simps(6))
      ultimately show ?thesis using t2 w1 r1 n by (auto simp: handshake_result_def)
    next
      case False
      obtain lb2 rx2 wt3 where fed: "(if 0 < length bs
          then (case clock_now (taped W) wt2 of (t, w) \<Rightarrow> (t, feed bs rx, w)) else (lb, rx, wt2)) = (lb2, rx2, wt3)"
        by (metis prod_cases3)
      then have t3: "commands (snd wt3) = cmds @ A"
        using t2 w1 by (cases wt2) (auto dest: taped_now split: if_splits prod.splits)
      obtain out rx3 noise3 log3 where dr:
        "handshake_drain is_status parse baud rx2 noise log1 = (out, rx3, noise3, log3)" by (metis prod_cases4)
      note d = handshake_drain_result [OF dr]
      show ?thesis
      proof (cases out)
        case (Some ex)
        have "y = (ex, log3, wt3)" using body unfolding rd prod.case Inr sum.case fed using False dr Some by simp
        with d Some t3 n r1 show ?thesis by (auto simp: handshake_result_def)
      next
        case None
        obtain rx4 noise4 log4 where c: "count_noise rx3 noise3 log3 = (rx4, noise4, log4)" by (metis prod_cases3)
        have "loop rx4 lb2 noise4 log4 wt3 = Some y"
          using body unfolding rd prod.case Inr sum.case fed using False dr None c by simp
        from IH [OF this] have "handshake_result W is_status parse baud wait noise4 log4 (cmds @ A) y"
          unfolding t3 .
        then show ?thesis
          by (rule handshake_result_step) (use A count_noise_log [OF c] d None r1 in auto)
      qed
    qed
  qed
qed

text \<open>A pulse logs nothing.\<close>

definition silent :: "('w, 'a) driver \<Rightarrow> bool" where
  "silent m \<longleftrightarrow> (\<forall>log w. fst (snd (m log w)) = log)"

lemma silent_intros [emits_intros]:
  "silent (ret x)" "silent (pass f)" "silent (io g h)"
  "silent m \<Longrightarrow> (\<And>x. silent (k x)) \<Longrightarrow> silent (andthen m k)"
  "silent m \<Longrightarrow> silent n \<Longrightarrow> silent (if c then m else n)"
  by (auto simp: silent_def ret_def pass_def io_def andthen_def split: prod.splits sum.splits outcome.splits)
    (metis fst_conv snd_conv)+

lemma silent_sync_pulse: "silent (sync_pulse W rx lp lb)"
  unfolding sync_pulse_def by (intro silent_intros)

lemma handshake_loop_taped_gen:
  assumes "handshake_loop Wt is_status parse baud wait started rx lp lb noise log wt = Some y"
  shows "Wt = taped W \<longrightarrow> handshake_result W is_status parse baud wait noise log (commands (snd wt)) y"
  using assms
proof (induction rule: handshake_loop.raw_induct [rotated, consumes 1, case_names step])
  case (step loop Wt is_status parse baud wait started rx lp lb noise log wt y)
  show ?case
  proof
    assume W: "Wt = taped W"
    note body = step(2) [unfolded W]
    have IH: "loop (taped W) is_status parse baud wait started rx lp lb noise log wt = Some y \<Longrightarrow>
        handshake_result W is_status parse baud wait noise log (commands (snd wt)) y" for rx lp lb noise log wt
      using step(1) [of "taped W"] by blast
    obtain t wt1 where now: "clock_now (taped W) wt = (t, wt1)" by (cases "clock_now (taped W) wt")
    have t1: "snd wt1 = snd wt" using now by (cases wt) (auto dest: taped_now)
    obtain ex log2 wt2 where sp: "sync_pulse (taped W) rx lp lb log wt1 = (ex, log2, wt2)" by (metis prod_cases3)
    have l2: "log2 = log" using silent_sync_pulse sp unfolding silent_def by (metis fst_conv snd_conv)
    obtain w1 tape1 w2 tape2 where p: "wt1 = (w1, tape1)" "wt2 = (w2, tape2)" by (metis prod.collapse)
    from emits_sync_pulse [unfolded emits_in_def, rule_format, OF sp [unfolded p]]
    have e: "case ex of Done _ \<Rightarrow> \<exists>A \<in> {[], pulse_events}. tape2 = tape1 @ A
      | Failed e \<Rightarrow> (\<exists>x. e = Io x) \<and> (\<exists>A \<in> {[], pulse_events}. \<exists>B. prefix B A \<and> tape2 = tape1 @ B)
      | Panicked \<Rightarrow> False" by (simp add: wrap_new split: outcome.splits)
    show "handshake_result W is_status parse baud wait noise log (commands (snd wt)) y"
    proof (cases "elapsed started t < wait")
      case False
      with body now have y: "y = (Failed (NoBootloader (of_int (wait div 1000000)) noise), log, wt1)" by simp
      have "prefix (commands (snd wt)) (commands (snd wt) @ pulses 0)" by simp
      then show ?thesis unfolding y handshake_result_def using t1 by auto
    next
      case True
      show ?thesis
      proof (cases ex)
        case Panicked
        with e show ?thesis by simp
      next
        case (Failed er)
        with body now True sp l2 have y: "y = (Failed er, log, wt2)" by simp
        from e Failed obtain x A B where er: "er = Io x" and A: "A \<in> {[], pulse_events}" "prefix B A"
          and t2: "tape2 = tape1 @ B" by auto
        from prefix_pulses [OF A, of "commands (snd wt)"] have
          "\<exists>n. prefix (commands (snd wt2)) (commands (snd wt) @ pulses n)" using t1 by (simp add: p t2)
        then show ?thesis unfolding y handshake_result_def by (simp add: er)
      next
        case (Done lp2)
        from e Done obtain A where A: "A \<in> {[], pulse_events}" "tape2 = tape1 @ A" by auto
        then have c2: "commands (snd wt2) = commands (snd wt) @ A"
          using t1 by (auto simp: p pulse_events_def)
        show ?thesis
          by (rule handshake_read_arm [where loop = "\<lambda>rx lb noise log w.
                loop (taped W) is_status parse baud wait started rx lp2 lb noise log w", OF A(1) c2 refl refl IH])
            (use body now True sp l2 Done in auto)
      qed
    qed
  qed
qed

lemma handshake_taped:
  assumes "handshake (taped W) is_status parse opts wait log (w, []) = Some (ex, log', (w', tape))"
  shows "\<exists>n. prefix (commands tape) (BaudEvt (handshake_baud opts) # pulses n)"
    and "(\<exists>f. is_status f \<and> replies log' = replies log @ [f] \<and> ex = status_outcome parse (handshake_baud opts) f)
      \<or> replies log' = replies log
        \<and> (case ex of
             Done _ \<Rightarrow> False
           | Failed e \<Rightarrow> (\<exists>x. e = Io x) \<or>
               (\<exists>n. e = NoBootloader (of_int (wait div 1000000)) n \<and> n + discards log = discards log')
           | Panicked \<Rightarrow> \<not> bounded_reads W)"
proof -
  let ?b = "handshake_baud opts"
  have "handshake_result W is_status parse ?b wait 0 log [BaudEvt ?b] (ex, log', (w', tape))"
  proof (cases "wire_set_baud W ?b w")
    case (Pair r w1)
    then have s: "wire_set_baud (taped W) ?b (w, []) = (r, w1, [BaudEvt ?b])"
      by (simp add: taped_calls tape_call_def)
    show ?thesis
    proof (cases r)
      case (Inl e)
      with assms s have "ex = Failed (Io e)" "log' = log" "tape = [BaudEvt ?b]" by (auto simp: handshake_def io_def)
      moreover have "prefix [BaudEvt ?b] ([BaudEvt ?b] @ pulses 0)" by simp
      ultimately show ?thesis unfolding handshake_result_def by auto
    next
      case (Inr u)
      obtain t wt2 where now: "clock_now (taped W) (w1, [BaudEvt ?b]) = (t, wt2)"
        by (cases "clock_now (taped W) (w1, [BaudEvt ?b])")
      with assms s Inr have "handshake_loop (taped W) is_status parse ?b wait t receiver_new (t - PULSE_EVERY) t 0
          log wt2 = Some (ex, log', (w', tape))" by (simp add: handshake_def io_def)
      from handshake_loop_taped_gen [OF this, of W] taped_now [OF now] show ?thesis by simp
    qed
  qed
  then show "\<exists>n. prefix (commands tape) (BaudEvt ?b # pulses n)"
    "(\<exists>f. is_status f \<and> replies log' = replies log @ [f] \<and> ex = status_outcome parse ?b f)
      \<or> replies log' = replies log
        \<and> (case ex of
             Done _ \<Rightarrow> False
           | Failed e \<Rightarrow> (\<exists>x. e = Io x) \<or>
               (\<exists>n. e = NoBootloader (of_int (wait div 1000000)) n \<and> n + discards log = discards log')
           | Panicked \<Rightarrow> \<not> bounded_reads W)"
    by (simp_all add: handshake_result_def split: outcome.splits)
qed

section \<open>Termination\<close>

definition forward :: "('w \<Rightarrow> int) \<Rightarrow> ('w, 'a) driver \<Rightarrow> bool" where
  "forward clk m \<longleftrightarrow> (\<forall>log w. clk w \<le> clk (snd (snd (m log w))))"

lemma forwardD: "forward clk m \<Longrightarrow> m log w = (ex, log', w') \<Longrightarrow> clk w \<le> clk w'"
  unfolding forward_def by (metis snd_conv)

lemma forward_ret: "forward clk (ret x)"
  by (simp add: forward_def ret_def)

lemma forward_pass: "(\<And>w. clk w \<le> clk (snd (f w))) \<Longrightarrow> forward clk (pass f)"
  by (simp add: forward_def pass_def split: prod.splits) (metis snd_conv)

lemma forward_io: "(\<And>w. clk w \<le> clk (snd (f w))) \<Longrightarrow> forward clk (io g f)"
  by (simp add: forward_def io_def split: prod.splits sum.splits) (metis snd_conv)

lemma forward_if: "forward clk m \<Longrightarrow> forward clk n \<Longrightarrow> forward clk (if c then m else n)"
  by simp

lemma forward_andthen:
  assumes "forward clk m" and "\<And>x. forward clk (f x)"
  shows "forward clk (andthen m f)"
  unfolding forward_def
proof (intro allI)
  fix log w
  obtain ex log1 w1 where m: "m log w = (ex, log1, w1)" by (metis prod_cases3)
  note le = forwardD [OF assms(1) m]
  show "clk w \<le> clk (snd (snd (andthen m f log w)))"
  proof (cases ex)
    case (Done x)
    have "clk w1 \<le> clk (snd (snd (f x log1 w1)))" using assms(2) by (simp add: forward_def)
    with le m Done show ?thesis by (simp add: andthen_def)
  qed (use le m in \<open>simp_all add: andthen_def\<close>)
qed

lemma forward_sync_pulse: "timely W clk \<Longrightarrow> forward clk (sync_pulse W rx lp lb)"
  unfolding sync_pulse_def timely_def
  by (intro forward_andthen forward_if forward_ret forward_pass forward_io) auto

lemma handshake_loop_returns:
  assumes "timely W clk"
  shows "\<exists>y. handshake_loop W is_status parse baud wait started rx lp lb noise log w = Some y"
proof (induction "nat (started + wait - clk w)" arbitrary: rx lp lb noise log w rule: less_induct)
  case less
  obtain t w1 where now: "clock_now W w = (t, w1)" by (cases "clock_now W w")
  have t: "t = clk w" "clk w \<le> clk w1" using assms now unfolding timely_def by (metis fst_conv snd_conv)+
  obtain ex log2 w2 where sp: "sync_pulse W rx lp lb log w1 = (ex, log2, w2)" by (metis prod_cases3)
  note sp' = forwardD [OF forward_sync_pulse [OF assms] sp]
  obtain r w3 where rd: "wire_read W 256 w2 = (r, w3)" by (cases "wire_read W 256 w2")
  have rd': "clk w2 < clk w3" using assms rd unfolding timely_def by (metis snd_conv)
  obtain t4 w4 where now4: "clock_now W w3 = (t4, w4)" by (cases "clock_now W w3")
  have t4: "clk w3 \<le> clk w4" using assms now4 unfolding timely_def by (metis snd_conv)
  show ?case
  proof (cases "elapsed started t < wait")
    case True
    then have "clk w < started + wait" using t by (simp add: elapsed_def)
    then have again: "\<exists>y. handshake_loop W is_status parse baud wait started rx' lp' lb' noise' log' w' = Some y"
      if "w' = w3 \<or> w' = w4" for rx' lp' lb' noise' log' w'
      using that t sp' rd' t4 by (intro less) auto
    show ?thesis
      using now True sp rd now4 again
      by (cases ex; cases r)
        (auto simp: handshake_loop.simps [of _ _ _ _ _ _ rx] split: prod.splits option.splits)
  qed (use now in \<open>simp add: handshake_loop.simps [of _ _ _ _ _ _ rx]\<close>)
qed

lemma handshake_total:
  "timely W clk \<Longrightarrow> \<exists>y. handshake W is_status parse opts wait log w = Some y"
  using handshake_loop_returns [of W clk]
  by (auto simp: handshake_def split: prod.splits outcome.splits)

lemma scripted_handshake:
  obtains ex log' w' tape where
    "handshake (taped scripted) is_status parse opts wait log (w, []) = Some (ex, log', (w', tape))"
proof -
  have "handshake (taped scripted) is_status parse opts wait log (w, []) \<noteq> None"
    using handshake_loop_returns [OF taped_timely [OF scripted_timely]]
    by (auto simp: handshake_def split: prod.splits outcome.splits)
  then show ?thesis using that by (metis not_None_eq prod_cases4)
qed

lemma status_outcome_iff:
  "Done info = status_outcome parse b f \<longleftrightarrow> parse f b = Inr info"
  "Failed e = status_outcome parse b f \<longleftrightarrow> (\<exists>e0. parse f b = Inl e0 \<and> e = ProtocolFailed e0)"
  "Panicked \<noteq> status_outcome parse b f"
  by (auto simp: status_outcome_def split: sum.splits)

section \<open>Properties\<close>

text \<open>
  C36: Before the chip is known the host sends nothing but sync pulses. However the
  handshake ends, the operations it calls on the wire (reads apart) are one change to
  the handshake baud and then 0x7F bytes, each followed by a flush; the last pulse may be cut
  short by an I/O error.
\<close>

theorem handshake_only_pulses:
  assumes "handshake (taped W) is_status parse opts wait log (w, []) = Some (ex, log', (w', tape))"
  shows "\<exists>n. prefix (commands tape)
    (BaudEvt (handshake_baud opts) # concat (replicate n [WriteEvt [SYNC_BYTE], FlushEvt]))"
  using handshake_taped(1) [OF assms] by (simp add: pulses_def)

theorem handshake_only_pulses_witness:
  "\<exists>ex log' w' tape n. handshake (taped scripted) (\<lambda>_. False) (\<lambda>f b. Inl EmptyImage) session_options_default
       (millis 50) [] ((0, []), []) = Some (ex, log', (w', tape))
     \<and> prefix (commands tape) (BaudEvt 2400 # concat (replicate n [WriteEvt [SYNC_BYTE], FlushEvt]))"
proof -
  obtain ex log' w' tape where
    r: "handshake (taped scripted) (\<lambda>_. False) (\<lambda>f b. Inl EmptyImage) session_options_default
       (millis 50) [] ((0, []), []) = Some (ex, log', (w', tape))" by (rule scripted_handshake)
  have "handshake_baud session_options_default = 2400" by (simp add: session_options_default_def)
  with handshake_only_pulses [OF r] r show ?thesis by auto
qed

text \<open>
  C35: What a handshake can end with. It succeeds exactly with the information the
  family parses from a status frame it received and logged last; a parse error of such a frame,
  an I/O error and the missing bootloader are the only failures, the last with the
  exact number of bytes logged as discarded; and it panics only on a wire that
  overruns its buffer.
\<close>

theorem handshake_outcomes:
  assumes "handshake (taped W) is_status parse opts wait log (w, []) = Some (ex, log', (w', tape))"
  shows "case ex of
      Done info \<Rightarrow> \<exists>f. is_status f \<and> parse f (handshake_baud opts) = Inr info
        \<and> replies log' = replies log @ [f]
    | Failed e \<Rightarrow> (\<exists>x. e = Io x)
        \<or> (\<exists>f e0. is_status f \<and> parse f (handshake_baud opts) = Inl e0 \<and> e = ProtocolFailed e0)
        \<or> (\<exists>n. e = NoBootloader (of_int (wait div 1000000)) n \<and> n + discards log = discards log')
    | Panicked \<Rightarrow> \<not> bounded_reads W"
proof (cases ex)
  case (Done info)
  with handshake_taped(2) [OF assms] show ?thesis by (auto simp: status_outcome_iff)
next
  case (Failed e)
  with handshake_taped(2) [OF assms] show ?thesis by (auto simp: status_outcome_iff)
next
  case Panicked
  with handshake_taped(2) [OF assms] show ?thesis by (auto simp: status_outcome_iff)
qed

theorem handshake_outcomes_witness:
  "\<exists>ex y. handshake (taped scripted) (\<lambda>_. False) (\<lambda>f b. Inl EmptyImage) session_options_default
       (millis 50) [] ((0, [[0x46, 0xB9]]), []) = Some (ex, y) \<and> ex \<noteq> Panicked \<and> (\<forall>info. ex \<noteq> Done info)"
proof -
  obtain ex log' w' tape where
    r: "handshake (taped scripted) (\<lambda>_. False) (\<lambda>f b. Inl EmptyImage) session_options_default
       (millis 50) [] ((0, [[0x46, 0xB9]]), []) = Some (ex, log', (w', tape))" by (rule scripted_handshake)
  from handshake_outcomes [OF r] scripted_bounded r show ?thesis by (cases ex) auto
qed

text \<open>
  The handshake returns: if no operation turns the clock back and every read
  takes some time, it ends for every wait, whatever arrives.
\<close>

lemma handshake_returns:
  assumes "timely W clk"
  shows "\<exists>y. handshake W is_status parse opts wait log w = Some y"
  using assms by (rule handshake_total)

end
