(* ===== verification/Driver_Tape.thy ===== *)
theory Driver_Tape imports Driver_Handshake begin

text \<open>
  The tape changes nothing. Whatever \<open>run\<close> and \<open>handshake\<close> do on a wire they also do on the
  taped one, so that a result over the tape speaks of every run on the wire itself.
  The second part reads a tape back into the frames it carries.
\<close>

section \<open>Steps on a taped wire\<close>

text \<open>\<open>tracks m mt\<close>: on a taped wire \<open>mt\<close> does what \<open>m\<close> does on the wire.\<close>

definition tracks :: "('w, 'a) driver \<Rightarrow> ('w \<times> wire_event list, 'a) driver \<Rightarrow> bool" where
  "tracks m mt \<longleftrightarrow> (\<forall>log wt ex log' w'. m log (fst wt) = (ex, log', w') \<longrightarrow>
     (\<exists>tape'. mt log wt = (ex, log', (w', tape'))))"

named_theorems tracks_intros

lemma tracks_ret [tracks_intros]: "tracks (ret x) (ret x)"
  by (auto simp: tracks_def ret_def)

lemma tracks_say [tracks_intros]: "tracks (say e) (say e)"
  by (auto simp: tracks_def say_def)

lemma tracks_io [tracks_intros]: "tracks (io g m) (io g (tape_call e m))"
  by (auto simp: tracks_def io_def tape_call_def split: prod.splits sum.splits)

lemma tracks_now [tracks_intros]: "tracks (pass (clock_now W)) (pass (clock_now (taped W)))"
  by (auto simp: tracks_def pass_def taped_def split: prod.splits)

lemma tracks_sleep [tracks_intros]:
  "tracks (pass (\<lambda>w. ((), clock_sleep W d w))) (pass (\<lambda>w. ((), clock_sleep (taped W) d w)))"
  by (auto simp: tracks_def pass_def taped_def split: prod.splits)

lemma tracks_if [tracks_intros]:
  "tracks m mt \<Longrightarrow> tracks n nt \<Longrightarrow> tracks (if c then m else n) (if c then mt else nt)"
  by simp

lemma tracks_andthen [tracks_intros]:
  assumes "tracks m mt" and "\<And>x. tracks (f x) (ft x)"
  shows "tracks (andthen m f) (andthen mt ft)"
  unfolding tracks_def
proof (intro allI impI)
  fix log and wt :: "'a \<times> wire_event list" and ex log' w'
  assume r: "andthen m f log (fst wt) = (ex, log', w')"
  obtain ex1 log1 w1 where m: "m log (fst wt) = (ex1, log1, w1)" by (metis prod_cases3)
  with assms(1) obtain tape1 where mt: "mt log wt = (ex1, log1, (w1, tape1))"
    unfolding tracks_def by blast
  show "\<exists>tape'. andthen mt ft log wt = (ex, log', (w', tape'))"
  proof (cases ex1)
    case (Done x)
    with r m have "f x log1 (fst (w1, tape1)) = (ex, log', w')" by (simp add: andthen_def)
    with assms(2) [of x] obtain tape' where "ft x log1 (w1, tape1) = (ex, log', (w', tape'))"
      unfolding tracks_def by blast
    with mt Done show ?thesis by (simp add: andthen_def)
  qed (use r m mt in \<open>simp_all add: andthen_def\<close>)
qed

lemma tracks_send_frame:
  "tracks (send_frame W cfg s lbl bs before after rx) (send_frame (taped W) cfg s lbl bs before after rx)"
proof -
  have b: "tracks
      (case before of Some b \<Rightarrow> andthen (io (wrap s) (wire_set_baud W b)) (\<lambda>_. ret receiver_new) | None \<Rightarrow> ret rx)
      (case before of Some b \<Rightarrow> andthen (io (wrap s) (wire_set_baud (taped W) b)) (\<lambda>_. ret receiver_new)
       | None \<Rightarrow> ret rx)"
    by (cases before) (auto simp: taped_calls intro!: tracks_intros)
  show ?thesis
    unfolding send_frame_def Let_def taped_calls
    by (intro tracks_andthen b [unfolded taped_calls])
      (auto split: option.split intro!: tracks_intros)
qed

lemma tracks_sync_pulse: "tracks (sync_pulse W rx lp lb) (sync_pulse (taped W) rx lp lb)"
  unfolding sync_pulse_def taped_calls by (intro tracks_intros)

lemma tracksD:
  "tracks m mt \<Longrightarrow> m log w = (ex, log', w') \<Longrightarrow> \<exists>tape'. mt log (w, tape) = (ex, log', (w', tape'))"
  unfolding tracks_def by force


section \<open>The loops\<close>

lemma taped_now_ex: "clock_now W w = (t, w') \<Longrightarrow> clock_now (taped W) (w, tape) = (t, (w', tape))"
  by (simp add: taped_def)

lemma taped_read_ex: "wire_read W n w = (r, w') \<Longrightarrow> wire_read (taped W) n (w, tape) = (r, (w', tape @ [ReadEvt]))"
  by (simp add: taped_def tape_call_def)

lemma tape_await_reply:
  assumes "await_reply W s lbl ms deadline rx log w = Some y"
  shows "\<forall>tape. \<exists>tape'. await_reply (taped W) s lbl ms deadline rx log (w, tape)
    = Some (case y of (ex, rx', log', w') \<Rightarrow> (ex, rx', log', (w', tape')))"
  using assms
proof (induction rule: await_reply.raw_induct [rotated, consumes 1, case_names step])
  case (step await W s lbl ms deadline rx log w y)
  have IH: "await W s lbl ms deadline rx log w = Some y \<Longrightarrow>
      \<exists>tape'. await_reply (taped W) s lbl ms deadline rx log (w, tape)
        = Some (case y of (ex, rx', log', w') \<Rightarrow> (ex, rx', log', (w', tape')))"
    for W :: "'a wire" and s lbl ms deadline rx log w tape y
    using step(1) by blast
  show ?case
  proof
    fix tape
    note unf = await_reply.simps [of "taped W" s lbl ms deadline rx log "(w, tape)"]
    obtain res rx1 where nf: "next_frame rx = (res, rx1)" by (cases "next_frame rx")
    obtain t w1 where now: "clock_now W w = (t, w1)" by (cases "clock_now W w")
    obtain r w2 where rd: "wire_read W 512 w1 = (r, w2)" by (cases "wire_read W 512 w1")
    note nowt = taped_now_ex [OF now, of tape] and rdt = taped_read_ex [OF rd, of tape]
    show "\<exists>tape'. await_reply (taped W) s lbl ms deadline rx log (w, tape)
      = Some (case y of (ex, rx', log', w') \<Rightarrow> (ex, rx', log', (w', tape')))"
    proof (cases res)
      case (Some r')
      then show ?thesis using step(2) nf unf
        by (cases "log_discarded rx1 log") (auto intro: IH split: sum.splits)
    next
      case None
      then show ?thesis using step(2) nf now rd nowt rdt unf
        by (auto intro: IH split: sum.splits if_splits)
    qed
  qed
qed

lemma tape_run_loop:
  assumes "run_loop W cfg rx s log w = Some y"
  shows "\<forall>tape. \<exists>tape'. run_loop (taped W) cfg rx s log (w, tape)
    = Some (case y of (ex, s', log', w') \<Rightarrow> (ex, s', log', (w', tape')))"
  using assms
proof (induction rule: run_loop.raw_induct [rotated, consumes 1, case_names step])
  case (step loop W cfg rx s log w y)
  have IH: "loop W cfg rx s log w = Some (ex, s', log', w') \<Longrightarrow>
      \<exists>tape'. run_loop (taped W) cfg rx s log (w, tape) = Some (ex, s', log', (w', tape'))"
    for W :: "'a wire" and cfg rx s log w tape ex s' log' w'
    using step(1) [of W cfg rx s log w] by force
  show ?case
  proof
    fix tape
    obtain ex s' log' w' where y: "y = (ex, s', log', w')" by (metis prod_cases4)
    note unf = run_loop.simps [of "taped W" cfg rx s log "(w, tape)"]
    show "\<exists>tape'. run_loop (taped W) cfg rx s log (w, tape)
      = Some (case y of (ex, s', log', w') \<Rightarrow> (ex, s', log', (w', tape')))"
    proof (cases "next_action s")
      case None
      with step(2) unf show ?thesis by auto
    next
      case (Some as)
      obtain a s1 where as: "as = (a, s1)" by (cases as)
      show ?thesis
      proof (cases a)
        case (SetBaud b)
        obtain ex1 log1 w1 where io: "io (wrap s1) (wire_set_baud W b) log w = (ex1, log1, w1)"
          by (metis prod_cases3)
        have "tracks (io (wrap s1) (wire_set_baud W b)) (io (wrap s1) (wire_set_baud (taped W) b))"
          unfolding taped_calls by (rule tracks_io)
        from tracksD [OF this io, of tape] obtain tape1 where
          "io (wrap s1) (wire_set_baud (taped W) b) log (w, tape) = (ex1, log1, (w1, tape1))" ..
        with io step(2) unf Some as SetBaud show ?thesis
          by (cases ex1) (auto simp: y intro: IH)
      next
        case (Send i lbl p bs er ms before after)
        obtain ex1 log1 w1 where send: "send_frame W cfg s1 lbl bs before after rx log w = (ex1, log1, w1)"
          by (metis prod_cases3)
        from tracksD [OF tracks_send_frame send, of tape] obtain tape1 where
          sendt: "send_frame (taped W) cfg s1 lbl bs before after rx log (w, tape) = (ex1, log1, (w1, tape1))" ..
        show ?thesis
        proof (cases "\<exists>rx1. ex1 = Done rx1 \<and> er")
          case False
          with send sendt step(2) unf Some as Send show ?thesis
            by (cases ex1) (auto simp: y intro: IH)
        next
          case True
          then obtain rx1 where d: "ex1 = Done rx1" "er" by blast
          obtain t w2 where now: "clock_now W w1 = (t, w2)" by (cases "clock_now W w1")
          let ?await = "\<lambda>W. await_reply W s1 lbl ms (t + millis (int (unat ms))) rx1 log1"
          from step(2) Some as Send send d now obtain ex2 rx2 log2 w3 where
            aw: "?await W w2 = Some (ex2, rx2, log2, w3)"
            by (cases "?await W w2") auto
          from tape_await_reply [OF aw] obtain tape3 where
            awt: "?await (taped W) (w2, tape1) = Some (ex2, rx2, log2, (w3, tape3))" by auto
          from step(2) unf Some as Send send sendt d now aw awt taped_now_ex [OF now, of tape1]
          show ?thesis
            by (cases ex2; cases "log_discarded rx2 log2")
              (auto simp: y intro: IH split: option.splits sum.splits)
        qed
      qed (use step(2) unf Some as in auto)
    qed
  qed
qed

text \<open>Every run that returns is the run of a taped wire, with the tape dropped.\<close>

lemma tape_run:
  assumes "run W s cfg log w = Some (ex, s', log', w')"
  obtains tape where "run (taped W) s cfg log (w, []) = Some (ex, s', log', (w', tape))"
  using tape_run_loop [OF assms [unfolded run_def], rule_format, of "[]"] unfolding run_def by auto


lemma tape_handshake_loop:
  assumes "handshake_loop W is_status parse baud wait started rx lp lb noise log w = Some y"
  shows "\<forall>tape. \<exists>tape'. handshake_loop (taped W) is_status parse baud wait started rx lp lb noise log (w, tape)
    = Some (case y of (ex, log', w') \<Rightarrow> (ex, log', (w', tape')))"
  using assms
proof (induction rule: handshake_loop.raw_induct [rotated, consumes 1, case_names step])
  case (step loop W is_status parse baud wait started rx lp lb noise log w y)
  have IH: "loop W is_status parse baud wait started rx lp lb noise log w = Some y \<Longrightarrow>
      \<exists>tape'. handshake_loop (taped W) is_status parse baud wait started rx lp lb noise log (w, tape)
        = Some (case y of (ex, log', w') \<Rightarrow> (ex, log', (w', tape')))"
    for W :: "'a wire" and is_status parse baud wait started rx lp lb noise log w tape y
    using step(1) by blast
  show ?case
  proof
    fix tape
    note unf = handshake_loop.simps [of "taped W" is_status parse baud wait started rx lp lb noise log "(w, tape)"]
    obtain t w1 where now: "clock_now W w = (t, w1)" by (cases "clock_now W w")
    obtain ex2 log2 w2 where sp: "sync_pulse W rx lp lb log w1 = (ex2, log2, w2)" by (metis prod_cases3)
    from tracksD [OF tracks_sync_pulse sp, of tape] obtain tape2 where
      spt: "sync_pulse (taped W) rx lp lb log (w1, tape) = (ex2, log2, (w2, tape2))" ..
    obtain r w3 where rd: "wire_read W 256 w2 = (r, w3)" by (cases "wire_read W 256 w2")
    obtain t4 w4 where now4: "clock_now W w3 = (t4, w4)" by (cases "clock_now W w3")
    note facts = now taped_now_ex [OF now, of tape] sp spt rd taped_read_ex [OF rd, of tape2]
      now4 taped_now_ex [OF now4, of "tape2 @ [ReadEvt]"]
    show "\<exists>tape'. handshake_loop (taped W) is_status parse baud wait started rx lp lb noise log (w, tape)
      = Some (case y of (ex, log', w') \<Rightarrow> (ex, log', (w', tape')))"
    proof (cases "\<exists>lp2 bs. ex2 = Done lp2 \<and> r = Inr bs \<and> \<not> 256 < length bs \<and> elapsed started t < wait")
      case False
      with step(2) unf facts show ?thesis
        by (cases ex2; cases r) (auto split: if_splits)
    next
      case True
      then obtain lp2 bs where d: "ex2 = Done lp2" "r = Inr bs" "\<not> 256 < length bs" "elapsed started t < wait"
        by blast
      let ?drain = "\<lambda>rx. handshake_drain is_status parse baud rx noise log2"
      let ?rest = "\<lambda>lb. \<lambda>(out, rx, noise, log). \<lambda>w. (case out of
          Some out \<Rightarrow> Some (out, log, w)
        | None \<Rightarrow> (case count_noise rx noise log of (rx, noise, log) \<Rightarrow>
            loop W is_status parse baud wait started rx lp2 lb noise log w))"
      have rest: "?rest lb' q w' = Some y \<Longrightarrow> \<exists>tape'.
          (case q of (out, rx, noise, log) \<Rightarrow> (case out of
             Some out \<Rightarrow> Some (out, log, (w', tp))
           | None \<Rightarrow> (case count_noise rx noise log of (rx, noise, log) \<Rightarrow>
               handshake_loop (taped W) is_status parse baud wait started rx lp2 lb' noise log (w', tp))))
          = Some (case y of (ex, log', w') \<Rightarrow> (ex, log', (w', tape')))" for lb' q w' tp
        by (auto split: option.splits prod.splits dest!: IH)
      show ?thesis
      proof (cases "bs = []")
        case True
        with step(2) facts d have "?rest lb (?drain rx) w3 = Some y"
          by (auto split: option.splits prod.splits)
        from rest [OF this, of "tape2 @ [ReadEvt]"] unf facts d True show ?thesis
          by (auto split: option.splits prod.splits)
      next
        case False
        with step(2) facts d have "?rest t4 (?drain (feed bs rx)) w4 = Some y"
          by (auto split: option.splits prod.splits)
        from rest [OF this, of "tape2 @ [ReadEvt]"] unf facts d False show ?thesis
          by (auto split: option.splits prod.splits)
      qed
    qed
  qed
qed

lemma tape_handshake:
  assumes "handshake W is_status parse opts wait log w = Some (ex, log', w')"
  obtains tape where "handshake (taped W) is_status parse opts wait log (w, []) = Some (ex, log', (w', tape))"
proof -
  let ?b = "handshake_baud opts"
  obtain ex1 log1 w1 where io: "io id (wire_set_baud W ?b) log w = (ex1, log1, w1)" by (metis prod_cases3)
  have "tracks (io id (wire_set_baud W ?b)) (io id (wire_set_baud (taped W) ?b))"
    unfolding taped_calls by (rule tracks_io)
  from tracksD [OF this io, of "[]"] obtain tape1 where
    iot: "io id (wire_set_baud (taped W) ?b) log (w, []) = (ex1, log1, (w1, tape1))" ..
  obtain t w2 where now: "clock_now W w1 = (t, w2)" by (cases "clock_now W w1")
  note facts = io iot now taped_now_ex [OF now, of tape1]
  show thesis
  proof (cases ex1)
    case (Done u)
    with assms facts have "handshake_loop W is_status parse ?b wait t receiver_new (t - PULSE_EVERY) t 0 log1 w2
      = Some (ex, log', w')" by (simp add: handshake_def)
    from tape_handshake_loop [OF this, rule_format, of tape1] facts Done that show thesis
      by (auto simp: handshake_def)
  qed (use assms facts that in \<open>auto simp: handshake_def\<close>)
qed


section \<open>Reading a tape back\<close>

text \<open>
  The frames a tape carries, each with the line rate it was written at, for a line
  that is first at rate \<open>r\<close>. Bytes that are no frame, as the pulses, do not count.
\<close>

fun sent_at :: "u32 \<Rightarrow> wire_event list \<Rightarrow> (u32 \<times> frame) list" where
  "sent_at r [] = []"
| "sent_at r (BaudEvt b # es) = sent_at b es"
| "sent_at r (WriteEvt bs # es) = (case decode bs of Inr f \<Rightarrow> [(r, f)] | Inl _ \<Rightarrow> []) @ sent_at r es"
| "sent_at r (_ # es) = sent_at r es"

fun rate_after :: "u32 \<Rightarrow> wire_event list \<Rightarrow> u32" where
  "rate_after r [] = r"
| "rate_after r (BaudEvt b # es) = rate_after b es"
| "rate_after r (_ # es) = rate_after r es"

lemma rate_after_append [simp]: "rate_after r (xs @ ys) = rate_after (rate_after r xs) ys"
  by (induction r xs rule: rate_after.induct) simp_all

lemma sent_at_append [simp]: "sent_at r (xs @ ys) = sent_at r xs @ sent_at (rate_after r xs) ys"
  by (induction r xs rule: sent_at.induct) simp_all

lemma sent_at_prefix: "prefix xs ys \<Longrightarrow> prefix (sent_at r xs) (sent_at r ys)"
  by (auto elim!: prefixE)

lemma sent_at_commands [simp]: "sent_at r (commands tape) = sent_at r tape"
  by (induction r tape rule: sent_at.induct) (simp_all add: commands_def)

lemma rate_after_commands [simp]: "rate_after r (commands tape) = rate_after r tape"
  by (induction r tape rule: rate_after.induct) (simp_all add: commands_def)

lemma decode_pulse: "\<exists>e. decode [SYNC_BYTE] = Inl e"
  by (simp add: decode_def SYNC_BYTE_def MAGIC_def FRAME_OVERHEAD_def)

lemma sent_at_pulses [simp]: "sent_at r (pulses n) = []"
  using decode_pulse by (induction n) auto

lemma rate_after_pulses [simp]: "rate_after r (pulses n) = r"
  by (induction n) simp_all

lemma sent_at_retune [simp]: "sent_at r (retune_events cfg after) = []"
  by (simp add: retune_events_def split: option.splits)

lemma rate_after_retune [simp]:
  "rate_after r (retune_events cfg after) = (case after of None \<Rightarrow> r | Some b \<Rightarrow> b)"
  by (simp add: retune_events_def split: option.splits)

lemma step_events_rates:
  "sent_at r (step_events cfg st) = [(case retune_before_send st of None \<Rightarrow> r | Some b \<Rightarrow> b, frame st)]"
  "rate_after r (step_events cfg st) = (case retune_after_send st of
     Some b \<Rightarrow> b | None \<Rightarrow> (case retune_before_send st of None \<Rightarrow> r | Some b \<Rightarrow> b))"
  by (simp_all add: step_events_def send_events_def split: option.splits)

lemma sent_frames_steps: "map snd (sent_at r (concat (map (step_events cfg) sts))) = map frame sts"
  by (induction sts arbitrary: r) (simp_all add: step_events_rates)

text \<open>What a handshake leaves on the tape: no frame, and the line at the handshake baud.\<close>

lemma rate_after_untuned: "\<forall>b'. BaudEvt b' \<notin> set es \<Longrightarrow> rate_after b es = b"
  by (induction b es rule: rate_after.induct) auto

lemma handshake_tape:
  assumes "handshake (taped W) is_status parse opts wait log (w, []) = Some (ex, log', (w', tape))"
  shows "sent_at r tape = []"
    and "rate_after (handshake_baud opts) tape = handshake_baud opts"
proof -
  from handshake_taped(1) [OF assms] obtain n where
    n: "prefix (commands tape) (BaudEvt (handshake_baud opts) # pulses n)" ..
  from sent_at_prefix [OF this, of r] show "sent_at r tape = []" by simp
  have p: "BaudEvt b' \<notin> set (pulses n)" for b' by (induction n) auto
  from n have "commands tape = [] \<or> (\<exists>es. commands tape = BaudEvt (handshake_baud opts) # es \<and> prefix es (pulses n))"
    by (cases "commands tape") auto
  then have "rate_after (handshake_baud opts) (commands tape) = handshake_baud opts"
  proof
    assume "\<exists>es. commands tape = BaudEvt (handshake_baud opts) # es \<and> prefix es (pulses n)"
    then obtain es where c: "commands tape = BaudEvt (handshake_baud opts) # es" and "prefix es (pulses n)"
      by blast
    with p have "\<forall>b'. BaudEvt b' \<notin> set es" using set_mono_prefix by blast
    with c show ?thesis by (simp add: rate_after_untuned)
  qed simp
  then show "rate_after (handshake_baud opts) tape = handshake_baud opts" by simp
qed

end
