(* ===== verification/Transport.thy ===== *)
theory Transport imports Driver_Handshake begin

text \<open>
  The wire over a serial port of \<open>src/src/transport.rs\<close>. What the code calls in the
  crates \<open>serialport\<close> and \<open>libc\<close> is a record of functions over the state of the
  outside world, which also carries the clock; nothing is assumed of them but where a lemma
  says so. The conditional compilation by operating system is the parameter
  \<open>target\<close>. \<open>wire_impl\<close> is the \<open>impl Wire for SerialWire\<close>.
\<close>

section \<open>The world outside\<close>

datatype target = MacOs | OtherUnix | NotUnix

datatype data_bits = FiveBits | SixBits | SevenBits | EightBits
datatype parity = NoParity | OddParity | EvenParity
datatype stop_bits = OneStop | TwoStops
datatype flow_control = NoFlow | SoftwareFlow | HardwareFlow

record port_settings =
  port_path :: string
  port_baud :: u32
  port_data_bits :: data_bits
  port_parity :: parity
  port_stop_bits :: stop_bits
  port_flow :: flow_control
  port_timeout :: int

text \<open>\<open>serialport::Error\<close>, as the text it displays.\<close>

type_synonym serial_error = string

record 'p serial_port =
  port_open :: "port_settings \<Rightarrow> 'p \<Rightarrow> (serial_error + int) \<times> 'p"
  port_write_all :: "u8 list \<Rightarrow> 'p \<Rightarrow> (io_error + unit) \<times> 'p"
  port_read :: "nat \<Rightarrow> 'p \<Rightarrow> (io_error + u8 list) \<times> 'p"
  port_set_baud_rate :: "u32 \<Rightarrow> 'p \<Rightarrow> (serial_error + unit) \<times> 'p"
  port_flush :: "'p \<Rightarrow> (io_error + unit) \<times> 'p"
  available_ports :: "'p \<Rightarrow> (serial_error + string list) \<times> 'p"
  io_to_serial :: "io_error \<Rightarrow> serial_error"
  libc_ioctl :: "int \<Rightarrow> nat \<Rightarrow> u32 \<Rightarrow> 'p \<Rightarrow> int \<times> 'p"
  libc_tcdrain :: "int \<Rightarrow> 'p \<Rightarrow> int \<times> 'p"
  last_os_error :: "'p \<Rightarrow> io_error"
  os_now :: "'p \<Rightarrow> int \<times> 'p"
  os_sleep :: "int \<Rightarrow> 'p \<Rightarrow> 'p"

section \<open>\<open>SerialWire\<close>\<close>

definition WIRE_PARITY :: parity where "WIRE_PARITY = NoParity"
definition WIRE_DATA_BITS :: data_bits where "WIRE_DATA_BITS = EightBits"
definition WIRE_STOP_BITS :: stop_bits where "WIRE_STOP_BITS = OneStop"
definition READ_POLL :: int where "READ_POLL = millis 20"

text \<open>The field \<open>fd\<close> exists on Unix only; nothing reads it on other systems.\<close>

record 'p serial_wire =
  port :: 'p
  baud :: u32
  fd :: int

definition IOSSIOSPEED :: nat where "IOSSIOSPEED = 0x80045402"

definition force_baud_iossiospeed ::
    "'p serial_port \<Rightarrow> u32 \<Rightarrow> 'p serial_wire \<Rightarrow> (io_error + unit) \<times> 'p serial_wire" where
  "force_baud_iossiospeed P speed s =
     (case libc_ioctl P (fd s) IOSSIOSPEED speed (port s) of
        (rc, p) \<Rightarrow> (if rc \<noteq> 0 then Inl (last_os_error P p) else Inr (), s\<lparr>port := p\<rparr>))"

text \<open>
  \<open>SerialWire::open\<close>; a failure leaves the world without a wire.
\<close>

definition serial_open ::
    "target \<Rightarrow> 'p serial_port \<Rightarrow> string \<Rightarrow> u32 \<Rightarrow> parity \<Rightarrow> 'p \<Rightarrow> (serial_error \<times> 'p) + 'p serial_wire" where
  "serial_open tgt P path speed par w =
     (case port_open P
             \<lparr>port_path = path, port_baud = speed, port_data_bits = WIRE_DATA_BITS, port_parity = par,
              port_stop_bits = WIRE_STOP_BITS, port_flow = NoFlow, port_timeout = READ_POLL\<rparr> w of
        (Inl e, w) \<Rightarrow> Inl (e, w)
      | (Inr n, w) \<Rightarrow>
          let s = \<lparr>port = w, baud = speed, fd = n\<rparr>
          in if tgt = MacOs then
               (case force_baud_iossiospeed P speed s of
                  (Inl e, s) \<Rightarrow> Inl (io_to_serial P e, port s)
                | (Inr _, s) \<Rightarrow> Inr s)
             else Inr s)"

definition serial_list :: "'p serial_port \<Rightarrow> 'p \<Rightarrow> string list \<times> 'p" where
  "serial_list P w =
     (case available_ports P w of (Inl _, w) \<Rightarrow> ([], w) | (Inr ps, w) \<Rightarrow> (ps, w))"

definition on_port :: "('p \<Rightarrow> 'a \<times> 'p) \<Rightarrow> 'p serial_wire \<Rightarrow> 'a \<times> 'p serial_wire" where
  "on_port f s = (case f (port s) of (x, p) \<Rightarrow> (x, s\<lparr>port := p\<rparr>))"

definition serial_read :: "'p serial_port \<Rightarrow> nat \<Rightarrow> 'p serial_wire \<Rightarrow> (io_error + u8 list) \<times> 'p serial_wire" where
  "serial_read P n s =
     (case on_port (port_read P n) s of
        (Inr bs, s) \<Rightarrow> (Inr bs, s)
      | (Inl e, s) \<Rightarrow> if kind e = TimedOut then (Inr [], s) else (Inl e, s))"

definition serial_set_baud ::
    "target \<Rightarrow> 'p serial_port \<Rightarrow> u32 \<Rightarrow> 'p serial_wire \<Rightarrow> (io_error + unit) \<times> 'p serial_wire" where
  "serial_set_baud tgt P b s =
     (case on_port (port_set_baud_rate P b) s of
        (Inl e, s) \<Rightarrow> (Inl (IoError Other e), s)
      | (Inr _, s) \<Rightarrow>
          (case (if tgt = MacOs then force_baud_iossiospeed P b s else (Inr (), s)) of
             (Inl e, s) \<Rightarrow> (Inl e, s)
           | (Inr _, s) \<Rightarrow> (Inr (), s\<lparr>baud := b\<rparr>)))"

text \<open>On systems other than Unix \<open>drain\<close> is the trait's default, a flush.\<close>

definition serial_drain ::
    "target \<Rightarrow> 'p serial_port \<Rightarrow> 'p serial_wire \<Rightarrow> (io_error + unit) \<times> 'p serial_wire" where
  "serial_drain tgt P s =
     (if tgt = NotUnix then on_port (port_flush P) s
      else case on_port (port_flush P) s of
        (Inl e, s) \<Rightarrow> (Inl e, s)
      | (Inr _, s) \<Rightarrow>
          (case on_port (libc_tcdrain P (fd s)) s of
             (rc, s) \<Rightarrow> (if rc \<noteq> 0 then Inl (last_os_error P (port s)) else Inr (), s)))"

definition wire_impl :: "target \<Rightarrow> 'p serial_port \<Rightarrow> 'p serial_wire wire" where
  "wire_impl tgt P = \<lparr>
     wire_write_all = (\<lambda>bs. on_port (port_write_all P bs)),
     wire_read = serial_read P,
     wire_set_baud = serial_set_baud tgt P,
     wire_flush = on_port (port_flush P),
     wire_baud = baud,
     wire_drain = serial_drain tgt P,
     clock_now = on_port (os_now P),
     clock_sleep = (\<lambda>d s. s\<lparr>port := os_sleep P d (port s)\<rparr>)\<rparr>"

section \<open>What the driver may rely on\<close>

text \<open>
  The documented behaviour of the outside: a read stays within its buffer and takes
  time, also when it times out, and the clock never goes back.
\<close>

definition orderly_port :: "'p serial_port \<Rightarrow> ('p \<Rightarrow> int) \<Rightarrow> bool" where
  "orderly_port P clk \<longleftrightarrow>
     (\<forall>p. fst (os_now P p) = clk p \<and> clk p \<le> clk (snd (os_now P p))) \<and>
     (\<forall>n p. clk p < clk (snd (port_read P n p))) \<and>
     (\<forall>n p. case fst (port_read P n p) of Inr bs \<Rightarrow> length bs \<le> n | Inl _ \<Rightarrow> True) \<and>
     (\<forall>bs p. clk p \<le> clk (snd (port_write_all P bs p))) \<and>
     (\<forall>p. clk p \<le> clk (snd (port_flush P p)))"

lemma on_port_simps [simp]:
  "fst (on_port f s) = fst (f (port s))" "port (snd (on_port f s)) = snd (f (port s))"
  "baud (snd (on_port f s)) = baud s" "fd (snd (on_port f s)) = fd s"
  by (simp_all add: on_port_def split: prod.splits)

lemma serial_read_port [simp]: "port (snd (serial_read P n s)) = snd (port_read P n (port s))"
  by (auto simp: serial_read_def on_port_def split: prod.splits sum.splits)

lemma serial_read_result:
  "fst (serial_read P n s) =
     (case fst (port_read P n (port s)) of
        Inr bs \<Rightarrow> Inr bs
      | Inl e \<Rightarrow> if kind e = TimedOut then Inr [] else Inl e)"
  by (auto simp: serial_read_def on_port_def split: prod.splits sum.splits)

lemma serial_timely: "orderly_port P clk \<Longrightarrow> timely (wire_impl tgt P) (clk \<circ> port)"
  by (simp add: orderly_port_def timely_def wire_impl_def)

lemma serial_bounded:
  assumes "orderly_port P clk"
  shows "bounded_reads (wire_impl tgt P)"
  unfolding bounded_reads_def
proof (intro allI)
  fix n and s :: "'a serial_wire"
  have "case fst (port_read P n (port s)) of Inr bs \<Rightarrow> length bs \<le> n | Inl _ \<Rightarrow> True"
    using assms unfolding orderly_port_def by blast
  then have "case fst (serial_read P n s) of Inr bs \<Rightarrow> length bs \<le> n | Inl _ \<Rightarrow> True"
    by (auto simp: serial_read_result split: sum.splits)
  then show "case wire_read (wire_impl tgt P) n s of (Inr bs, _) \<Rightarrow> length bs \<le> n | _ \<Rightarrow> True"
    by (auto simp: wire_impl_def split: prod.splits sum.splits)
qed

end
