(* ===== verification/Driver_Uart.thy ===== *)
theory Driver_Uart imports Driver_Tape Transport begin

text \<open>
  The driver on a line with a microcontroller at its other end. \<open>uart_wire\<close> is the contract of
  such a wire: bytes reach the chip at the rate the line has when they go out, which is only
  sure after a drain or a read; the chip, a function of its state, hears them and answers at a
  rate of its own, and the answer can be read at a rate the two share. \<open>polled_wire\<close> adds
  that a read with nothing to take lasts no longer than the poll. Under these contracts a run over steps
  the chip serves ends with success, and so does a handshake with a chip that sleeps for a while.
\<close>

section \<open>The line and its contract\<close>

record ('c, 'r) line =
  line_rate :: u32
  mcu :: 'c
  reply_rate :: 'r
  incoming :: "u8 list"
  all_sent :: bool

type_synonym ('c, 'r) hearing = "'c \<Rightarrow> u32 \<Rightarrow> u8 list \<Rightarrow> 'c \<times> 'r \<times> u8 list"

definition heard :: "('c, 'r) hearing \<Rightarrow> u8 list \<Rightarrow> ('c, 'r) line \<Rightarrow> ('c, 'r) line" where
  "heard hear bs l =
     (case hear (mcu l) (line_rate l) bs of
        (c, r, ans) \<Rightarrow> l\<lparr>mcu := c, reply_rate := r, incoming := ans, all_sent := False\<rparr>)"

text \<open>A line on which what is written is gone at once.\<close>

definition prompt :: "('w \<Rightarrow> ('c, 'r) line \<Rightarrow> bool) \<Rightarrow> bool" where
  "prompt on_line \<longleftrightarrow> (\<forall>w l. on_line w l \<longrightarrow> on_line w (l\<lparr>all_sent := True\<rparr>))"

locale uart_wire =
  fixes W :: "'w wire" and hear :: "('c, 'r) hearing" and legible :: "u32 \<Rightarrow> 'r \<Rightarrow> bool"
    and on_line :: "'w \<Rightarrow> ('c, 'r) line \<Rightarrow> bool" and clk :: "'w \<Rightarrow> int"
  assumes line_write: "on_line w l \<Longrightarrow> all_sent l \<Longrightarrow> incoming l = [] \<Longrightarrow>
      \<exists>w'. wire_write_all W bs w = (Inr (), w') \<and> on_line w' (heard hear bs l) \<and> clk w' = clk w"
    and line_flush: "on_line w l \<Longrightarrow> \<exists>w'. wire_flush W w = (Inr (), w') \<and> on_line w' l \<and> clk w' = clk w"
    and line_drain: "on_line w l \<Longrightarrow> \<exists>w'. wire_drain W w = (Inr (), w') \<and> on_line w' (l\<lparr>all_sent := True\<rparr>)"
    and line_baud: "on_line w l \<Longrightarrow> all_sent l \<Longrightarrow>
      \<exists>w'. wire_set_baud W b w = (Inr (), w') \<and> on_line w' (l\<lparr>line_rate := b\<rparr>)"
    and line_sleep: "on_line w l \<Longrightarrow> on_line (clock_sleep W d w) l"
    and line_now: "on_line w l \<Longrightarrow> \<exists>w'. clock_now W w = (clk w, w') \<and> on_line w' l \<and> clk w' = clk w"
    and line_read: "on_line w l \<Longrightarrow> incoming l = [] \<or> legible (line_rate l) (reply_rate l) \<Longrightarrow>
      \<exists>w'. wire_read W n w = (Inr (take n (incoming l)), w')
        \<and> on_line w' (l\<lparr>incoming := drop n (incoming l), all_sent := True\<rparr>)"

locale polled_wire = uart_wire +
  assumes read_polls: "on_line w l \<Longrightarrow> incoming l = [] \<Longrightarrow>
      clk w < clk (snd (wire_read W n w)) \<and> clk (snd (wire_read W n w)) \<le> clk w + READ_POLL"

section \<open>Steps a chip serves\<close>

text \<open>The rates a step's frame is sent and its answer read at, on a line at rate \<open>r\<close>.\<close>

definition told_at :: "u32 \<Rightarrow> step \<Rightarrow> u32" where
  "told_at r st = (case retune_before_send st of Some b \<Rightarrow> b | None \<Rightarrow> r)"

definition answered_at :: "u32 \<Rightarrow> step \<Rightarrow> u32" where
  "answered_at r st = (case retune_after_send st of Some b \<Rightarrow> b | None \<Rightarrow> told_at r st)"

text \<open>Chatter and a frame behind it, short enough for one read.\<close>

definition chatter_then :: "nat \<Rightarrow> u8 list \<Rightarrow> frame \<Rightarrow> u8 list \<Rightarrow> bool" where
  "chatter_then n noise f bs \<longleftrightarrow> bs = noise @ encode f \<and> \<not> has_magic noise \<and> length bs \<le> n"

definition serves :: "('c, 'r) hearing \<Rightarrow> (u32 \<Rightarrow> 'r \<Rightarrow> bool) \<Rightarrow> 'c \<Rightarrow> u32 \<Rightarrow> step \<Rightarrow> 'c \<Rightarrow> bool" where
  "serves hear legible c r st c' \<longleftrightarrow>
     (\<exists>q ans. hear c (told_at r st) (encode (frame st)) = (c', q, ans)
       \<and> (if expect st = Nothing then ans = []
          else 0 < timeout_ms st \<and> legible (answered_at r st) q
            \<and> (\<exists>noise f. chatter_then 512 noise f ans \<and> reply_fits st f)))"

text \<open>Steps served one after the other; behind one without an answer nothing follows.\<close>

fun serves_all ::
    "('c, 'r) hearing \<Rightarrow> (u32 \<Rightarrow> 'r \<Rightarrow> bool) \<Rightarrow> 'c \<Rightarrow> u32 \<Rightarrow> step list \<Rightarrow> 'c \<Rightarrow> bool" where
  "serves_all hear legible c r [] c' \<longleftrightarrow> c' = c"
| "serves_all hear legible c r (st # sts) c' \<longleftrightarrow>
     (expect st = Nothing \<longrightarrow> sts = [])
     \<and> (\<exists>c1. serves hear legible c r st c1 \<and> serves_all hear legible c1 (answered_at r st) sts c')"

section \<open>One exchange\<close>

definition chatter_log :: "u8 list \<Rightarrow> log_event list" where
  "chatter_log noise = (if noise = [] then [] else [LogDiscarded noise])"

lemma receive_chatter:
  assumes "chatter_then n noise f bs" and "n \<le> 512"
  shows "next_frame (feed bs receiver_new) = (Some (Inr f), \<lparr>buf = [], discarded = noise\<rparr>)"
proof -
  have "length (encode f) \<le> 512" using assms by (auto simp: chatter_then_def)
  then have "receivable f" by (simp add: receivable_def wire_len_def FRAME_OVERHEAD_def)
  with next_frame_noise [of noise f "[]" "[]"] assms show ?thesis
    by (simp add: chatter_then_def feed_def receiver_new_def)
qed

lemma chatter_then_nonempty: "chatter_then n noise f bs \<Longrightarrow> bs \<noteq> []"
  by (auto simp: chatter_then_def encode_eq)

lemma log_discarded_chatter:
  "log_discarded \<lparr>buf = [], discarded = noise\<rparr> log = (receiver_new, log @ chatter_log noise)"
  by (simp add: log_discarded_def take_discarded_def receiver_new_def chatter_log_def)

lemma log_discarded_new: "log_discarded receiver_new log = (receiver_new, log)"
  by (simp add: log_discarded_def take_discarded_def receiver_new_def)

context uart_wire
begin

lemma await_heard:
  assumes "on_line w l" and c: "chatter_then 512 noise f (incoming l)"
    and leg: "legible (line_rate l) (reply_rate l)" and "clk w < deadline"
  shows "\<exists>w'. await_reply W s lbl ms deadline receiver_new log w
      = Some (Done f, receiver_new, log @ chatter_log noise, w')
    \<and> on_line w' (l\<lparr>incoming := [], all_sent := True\<rparr>)"
proof -
  obtain w1 where now: "clock_now W w = (clk w, w1)" "on_line w1 l"
    using line_now [OF assms(1)] by blast
  have len: "length (incoming l) \<le> 512" using c unfolding chatter_then_def by blast
  obtain w2 where rd: "wire_read W 512 w1 = (Inr (incoming l), w2)"
      "on_line w2 (l\<lparr>incoming := [], all_sent := True\<rparr>)"
    using line_read [OF now(2) disjI2, OF leg, of 512] len by auto
  have "await_reply W s lbl ms deadline (feed (incoming l) receiver_new) log w2
      = Some (Done f, receiver_new, log @ chatter_log noise, w2)"
    using receive_chatter [OF c]
    by (simp add: await_reply.simps [of _ _ _ _ _ "feed _ _"] log_discarded_chatter)
  then have "await_reply W s lbl ms deadline receiver_new log w
      = Some (Done f, receiver_new, log @ chatter_log noise, w2)"
    using now rd len assms(4) chatter_then_nonempty [OF c]
    by (simp add: await_reply.simps [of _ _ _ _ _ receiver_new] next_frame_new)
  with rd(2) show ?thesis by blast
qed

lemma send_heard:
  assumes "on_line w l" and "all_sent l" and "incoming l = []"
    and drains: "drain_mode cfg = TcDrain \<or> prompt on_line"
    and h: "hear (mcu l) (case before of Some b \<Rightarrow> b | None \<Rightarrow> line_rate l) bs = (c, q, ans)"
  obtains log' w' l' where
    "send_frame W cfg s lbl bs before after receiver_new log w = (Done receiver_new, log', w')"
    "on_line w' l'" "mcu l' = c" "reply_rate l' = q" "incoming l' = ans"
    "line_rate l' = (case after of Some b \<Rightarrow> b
       | None \<Rightarrow> (case before of Some b \<Rightarrow> b | None \<Rightarrow> line_rate l))"
proof -
  define l1 where "l1 = (case before of Some b \<Rightarrow> l\<lparr>line_rate := b\<rparr> | None \<Rightarrow> l)"
  have l1: "all_sent l1" "incoming l1 = []" "mcu l1 = mcu l"
    "line_rate l1 = (case before of Some b \<Rightarrow> b | None \<Rightarrow> line_rate l)"
    using assms(2,3) by (simp_all add: l1_def split: option.splits)
  have "\<exists>w1. (case before of
       Some b \<Rightarrow> andthen (io (wrap s) (wire_set_baud W b)) (\<lambda>_. ret receiver_new)
     | None \<Rightarrow> ret receiver_new) log w = (Done receiver_new, log, w1) \<and> on_line w1 l1"
  proof (cases before)
    case (Some b)
    obtain w1 where "wire_set_baud W b w = (Inr (), w1)" "on_line w1 (l\<lparr>line_rate := b\<rparr>)"
      using line_baud [OF assms(1,2)] by blast
    with Some show ?thesis by (simp add: ret_def andthen_def io_def l1_def)
  qed (use assms(1) in \<open>simp add: ret_def l1_def\<close>)
  then obtain w1 where w1: "(case before of
       Some b \<Rightarrow> andthen (io (wrap s) (wire_set_baud W b)) (\<lambda>_. ret receiver_new)
     | None \<Rightarrow> ret receiver_new) log w = (Done receiver_new, log, w1)" "on_line w1 l1" by blast
  define l2 where "l2 = heard hear bs l1"
  have l2: "mcu l2 = c" "reply_rate l2 = q" "incoming l2 = ans" "line_rate l2 = line_rate l1"
    using h l1 by (simp_all add: l2_def heard_def)
  obtain w2 where w2: "wire_write_all W bs w1 = (Inr (), w2)" "on_line w2 l2"
    using line_write [OF w1(2) l1(1,2)] unfolding l2_def by blast
  obtain w3 where w3: "wire_flush W w2 = (Inr (), w3)" "on_line w3 l2"
    using line_flush [OF w2(2)] by blast
  show thesis
  proof (cases after)
    case None
    with w1 w2 w3 l1 l2 that [OF _ w3(2)] show ?thesis
      by (simp add: send_frame_def andthen_def ret_def io_def say_def)
  next
    case (Some b)
    let ?l3 = "l2\<lparr>all_sent := True\<rparr>"
    obtain w4 where w4: "wire_drain W w3 = (Inr (), w4)" "on_line w4 ?l3"
      using line_drain [OF w3(2)] by blast
    define w5 where "w5 = (if drain_mode cfg = TcDrain then w4 else w3)"
    have "on_line w5 ?l3" using w4(2) w3(2) drains by (auto simp: w5_def prompt_def)
    define w6 where "w6 = (if 0 < margin_ms cfg then clock_sleep W (millis (margin_ms cfg)) w5 else w5)"
    have "on_line w6 ?l3" using \<open>on_line w5 ?l3\<close> line_sleep by (simp add: w6_def)
    then obtain w7 where w7: "wire_set_baud W b w6 = (Inr (), w7)" "on_line w7 (?l3\<lparr>line_rate := b\<rparr>)"
      using line_baud by fastforce
    let ?log = "log @ [LogStep lbl bs, LogNote (Switched (of_int (max 0 (margin_ms cfg))) b)]"
    have "send_frame W cfg s lbl bs before after receiver_new log w = (Done receiver_new, ?log, w7)"
      using Some w1 w2 w3 w4 w7
      by (cases "drain_mode cfg = TcDrain"; cases "0 < margin_ms cfg")
        (auto simp: send_frame_def andthen_def ret_def io_def say_def pass_def Let_def w5_def w6_def max_def)
    from that [OF this w7(2)] l2 Some show ?thesis by simp
  qed
qed

lemma send_step_heard:
  assumes "on_line w l" and "all_sent l" and "incoming l = []" and "drain_mode cfg = TcDrain \<or> prompt on_line"
    and "hear (mcu l) (told_at (line_rate l) st) (encode (frame st)) = (c, q, ans)"
  obtains log' w' l' where
    "send_frame W cfg s (label st) (encode (frame st)) (retune_before_send st) (retune_after_send st)
      receiver_new log w = (Done receiver_new, log', w')"
    "on_line w' l'" "mcu l' = c" "reply_rate l' = q" "incoming l' = ans"
    "line_rate l' = answered_at (line_rate l) st"
  using assms(5) unfolding told_at_def answered_at_def
  by (rule send_heard [OF assms(1-4), where s = s and lbl = "label st" and after = "retune_after_send st" and log = log])

text \<open>One step with the chip, up to the reply: it is sent, and what the chip answers arrives.\<close>

lemma run_loop_heard:
  assumes "session_inv s" and "\<not> awaiting s" and rem: "remaining s = st # sts"
    and l: "on_line w l" "all_sent l" "incoming l = []"
    and drains: "drain_mode cfg = TcDrain \<or> prompt on_line"
    and ex: "expect st \<noteq> Nothing" and ms: "0 < timeout_ms st"
    and h: "hear (mcu l) (told_at (line_rate l) st) (encode (frame st)) = (c, q, ans)"
    and leg: "legible (answered_at (line_rate l) st) q" and c: "chatter_then 512 noise f ans"
  obtains s1 log1 w1 l1 where "session_inv s1" "awaiting s1" "remaining s1 = st # sts"
    "on_line w1 l1" "all_sent l1" "incoming l1 = []" "line_rate l1 = answered_at (line_rate l) st" "mcu l1 = c"
    "run_loop W cfg receiver_new s log w =
       (case on_reply f s1 of
          None \<Rightarrow> Some (Panicked, s1, log1, w1)
        | Some (Inl e, s) \<Rightarrow> Some (Failed (wrap s (SessionFailed e)), s, log1, w1)
        | Some (Inr _, s) \<Rightarrow> run_loop W cfg receiver_new s log1 w1)"
proof -
  from next_action_send [OF assms(1-3)] ex obtain i s1 where
    act: "next_action s = Some (send_action i st, s1)" and inv1: "session_inv s1"
    and s1: "awaiting s1" "remaining s1 = st # sts" by auto
  obtain log1 w1 l1 where
    send: "send_frame W cfg s1 (label st) (encode (frame st)) (retune_before_send st) (retune_after_send st)
      receiver_new log w = (Done receiver_new, log1, w1)"
    and l1: "on_line w1 l1" "mcu l1 = c" "reply_rate l1 = q" "incoming l1 = ans"
      "line_rate l1 = answered_at (line_rate l) st"
    by (rule send_step_heard [OF l drains h, of s1 log])
  obtain w2 where now: "clock_now W w1 = (clk w1, w2)" "on_line w2 l1" "clk w2 = clk w1"
    using line_now [OF l1(1)] by blast
  have "0 < millis (int (unat (timeout_ms st)))"
    using ms by (simp add: millis_def word_less_def)
  then have "clk w2 < clk w1 + millis (int (unat (timeout_ms st)))" by (simp add: now(3))
  moreover have "chatter_then 512 noise f (incoming l1)" "legible (line_rate l1) (reply_rate l1)"
    using c leg l1 by simp_all
  ultimately obtain w3 where
    a: "await_reply W s1 (label st) (timeout_ms st) (clk w1 + millis (int (unat (timeout_ms st))))
      receiver_new log1 w2 = Some (Done f, receiver_new, log1 @ chatter_log noise, w3)"
    and l3: "on_line w3 (l1\<lparr>incoming := [], all_sent := True\<rparr>)"
    using await_heard [OF now(2)] by blast
  let ?log = "(log1 @ chatter_log noise) @ [LogReply f]"
  have "run_loop W cfg receiver_new s log w =
      (case on_reply f s1 of
          None \<Rightarrow> Some (Panicked, s1, ?log, w3)
        | Some (Inl e, s) \<Rightarrow> Some (Failed (wrap s (SessionFailed e)), s, ?log, w3)
        | Some (Inr _, s) \<Rightarrow> run_loop W cfg receiver_new s ?log w3)"
    using act send ex now(1) a
    by (simp add: run_loop.simps [of _ _ receiver_new s] send_action_def log_discarded_new)
  from that [OF inv1 s1 l3 _ _ _ _ this] l1 show thesis by simp
qed

lemma run_loop_serves:
  assumes "session_inv s" and "\<not> awaiting s" and rem: "remaining s = st # sts"
    and l: "on_line w l" "all_sent l" "incoming l = []"
    and drains: "drain_mode cfg = TcDrain \<or> prompt on_line"
    and srv: "serves hear legible (mcu l) (line_rate l) st c"
  obtains s1 log1 w1 l1 where "session_inv s1" "\<not> awaiting s1" "remaining s1 = sts"
    "on_line w1 l1" "expect st \<noteq> Nothing \<Longrightarrow> all_sent l1" "incoming l1 = []"
    "line_rate l1 = answered_at (line_rate l) st" "mcu l1 = c"
    "run_loop W cfg receiver_new s log w = run_loop W cfg receiver_new s1 log1 w1"
proof (cases "expect st = Nothing")
  case True
  with srv obtain q where h: "hear (mcu l) (told_at (line_rate l) st) (encode (frame st)) = (c, q, [])"
    by (auto simp: serves_def)
  from next_action_send [OF assms(1-3)] True obtain i s1 where
    act: "next_action s = Some (send_action i st, s1)" and s1: "session_inv s1" "\<not> awaiting s1" "remaining s1 = sts"
    by auto
  obtain log1 w1 l1 where
    send: "send_frame W cfg s1 (label st) (encode (frame st)) (retune_before_send st) (retune_after_send st)
      receiver_new log w = (Done receiver_new, log1, w1)"
    and l1: "on_line w1 l1" "mcu l1 = c" "incoming l1 = []" "line_rate l1 = answered_at (line_rate l) st"
    by (rule send_step_heard [OF l drains h, of s1 log])
  have "run_loop W cfg receiver_new s log w = run_loop W cfg receiver_new s1 log1 w1"
    using act send True by (simp add: run_loop.simps [of _ _ receiver_new s] send_action_def)
  from that [OF s1 l1(1) _ l1(3,4,2) this] True show thesis by blast
next
  case False
  with srv obtain q ans noise f where h: "hear (mcu l) (told_at (line_rate l) st) (encode (frame st)) = (c, q, ans)"
    and ms: "0 < timeout_ms st" and leg: "legible (answered_at (line_rate l) st) q"
    and c: "chatter_then 512 noise f ans" and fits: "reply_fits st f" by (auto simp: serves_def)
  obtain s1 log1 w1 l1 where s1: "session_inv s1" "awaiting s1" "remaining s1 = st # sts"
    and l1: "on_line w1 l1" "all_sent l1" "incoming l1 = []" "line_rate l1 = answered_at (line_rate l) st" "mcu l1 = c"
    and r: "run_loop W cfg receiver_new s log w =
       (case on_reply f s1 of
          None \<Rightarrow> Some (Panicked, s1, log1, w1)
        | Some (Inl e, s) \<Rightarrow> Some (Failed (wrap s (SessionFailed e)), s, log1, w1)
        | Some (Inr _, s) \<Rightarrow> run_loop W cfg receiver_new s log1 w1)"
    by (rule run_loop_heard [OF assms(1-3) l drains False ms h leg c])
  from on_reply_fits [OF s1 fits] obtain s2 where
    o2: "on_reply f s1 = Some (Inr (), s2)" and s2: "session_inv s2" "\<not> awaiting s2" "remaining s2 = sts" by blast
  from r o2 have "run_loop W cfg receiver_new s log w = run_loop W cfg receiver_new s2 log1 w1" by simp
  from that [OF s2 l1(1) _ l1(3-5) this] l1(2) show thesis by blast
qed

lemma run_heard:
  assumes "session_inv s" and "\<not> awaiting s" and "on_line w l" and "all_sent l" and "incoming l = []"
    and "drain_mode cfg = TcDrain \<or> prompt on_line"
    and "serves_all hear legible (mcu l) (line_rate l) (remaining s) c"
  shows "\<exists>s' log' w' l'. run_loop W cfg receiver_new s log w = Some (Done (), s', log', w')
    \<and> on_line w' l' \<and> mcu l' = c"
  using assms
proof (induction "remaining s" arbitrary: s log w l)
  case Nil
  from Nil.hyps [symmetric] Nil.prems have "next_action s = Some (Finished, s)" by (simp add: walk.act_done)
  moreover from Nil.prems(7) Nil.hyps [symmetric] have "mcu l = c" by simp
  ultimately show ?case using Nil.prems(3) by (auto simp: run_loop.simps)
next
  case (Cons st sts)
  note rem = Cons.hyps(2) [symmetric]
  from Cons.prems(7) obtain c1 where last: "expect st = Nothing \<longrightarrow> sts = []"
    and srv: "serves hear legible (mcu l) (line_rate l) st c1"
    and rest: "serves_all hear legible c1 (answered_at (line_rate l) st) sts c" by (auto simp: rem)
  obtain s1 log1 w1 l1 where s1: "session_inv s1" "\<not> awaiting s1" "remaining s1 = sts"
    and l1: "on_line w1 l1" "expect st \<noteq> Nothing \<Longrightarrow> all_sent l1" "incoming l1 = []"
      "line_rate l1 = answered_at (line_rate l) st" "mcu l1 = c1"
    and r: "run_loop W cfg receiver_new s log w = run_loop W cfg receiver_new s1 log1 w1"
    by (rule run_loop_serves [OF Cons.prems(1,2) rem Cons.prems(3-6) srv, of log]) (rule that)
  show ?case
  proof (cases "expect st = Nothing")
    case True
    with last have "sts = []" by simp
    with rest s1 have "next_action s1 = Some (Finished, s1)" "c1 = c" by (simp_all add: walk.act_done)
    with l1(1,5) show ?thesis by (auto simp: r run_loop.simps [of _ _ _ s1])
  next
    case False
    from rest l1(4,5) s1(3) have "serves_all hear legible (mcu l1) (line_rate l1) (remaining s1) c" by simp
    from Cons.hyps(1) [OF s1(3) [symmetric] s1(1,2) l1(1) l1(2) [OF False] l1(3) Cons.prems(6) this]
    show ?thesis unfolding r .
  qed
qed

text \<open>The steps at the front that the chip serves, up to the first one it does not.\<close>

lemma run_prefix:
  assumes "session_inv s" and "\<not> awaiting s" and "remaining s = pre @ rest"
    and "on_line w l" and "all_sent l" and "incoming l = []" and "drain_mode cfg = TcDrain \<or> prompt on_line"
    and "serves_all hear legible (mcu l) (line_rate l) pre c" and "\<forall>t \<in> set pre. expect t \<noteq> Nothing"
  obtains s1 log1 w1 l1 where "session_inv s1" "\<not> awaiting s1" "remaining s1 = rest"
    "on_line w1 l1" "all_sent l1" "incoming l1 = []" "line_rate l1 = foldl answered_at (line_rate l) pre" "mcu l1 = c"
    "run_loop W cfg receiver_new s log w = run_loop W cfg receiver_new s1 log1 w1"
  using assms
proof (induction pre arbitrary: s log w l thesis)
  case Nil
  show ?case by (rule Nil.prems(1) [OF Nil.prems(2,3) _ Nil.prems(5-7)]) (use Nil.prems(4,9) in simp_all)
next
  case (Cons t pre)
  from Cons.prems(4) have rem: "remaining s = t # pre @ rest" by simp
  from Cons.prems(9) obtain c2 where srv: "serves hear legible (mcu l) (line_rate l) t c2"
    and tl: "serves_all hear legible c2 (answered_at (line_rate l) t) pre c" by auto
  obtain s1 log1 w1 l1 where s1: "session_inv s1" "\<not> awaiting s1" "remaining s1 = pre @ rest"
    and l1: "on_line w1 l1" "expect t \<noteq> Nothing \<Longrightarrow> all_sent l1" "incoming l1 = []"
      "line_rate l1 = answered_at (line_rate l) t" "mcu l1 = c2"
    and r: "run_loop W cfg receiver_new s log w = run_loop W cfg receiver_new s1 log1 w1"
    by (rule run_loop_serves [OF Cons.prems(2,3) rem Cons.prems(5-8) srv, of log]) (rule that)
  have sent: "all_sent l1" and aw: "\<forall>t \<in> set pre. expect t \<noteq> Nothing" using l1(2) Cons.prems(10) by simp_all
  have tl1: "serves_all hear legible (mcu l1) (line_rate l1) pre c" using tl l1(4,5) by simp
  obtain s2 log2 w2 l2 where s2: "session_inv s2" "\<not> awaiting s2" "remaining s2 = rest"
    and l2: "on_line w2 l2" "all_sent l2" "incoming l2 = []" "line_rate l2 = foldl answered_at (line_rate l1) pre" "mcu l2 = c"
    and r2: "run_loop W cfg receiver_new s1 log1 w1 = run_loop W cfg receiver_new s2 log2 w2"
    by (rule Cons.IH [OF _ s1 l1(1) sent l1(3) Cons.prems(8) tl1 aw, of log1]) (rule that)
  have "line_rate l2 = foldl answered_at (line_rate l) (t # pre)" using l2(4) l1(4) by simp
  from Cons.prems(1) [OF s2 l2(1-3) this l2(5) trans [OF r r2]] show ?case .
qed

text \<open>A step the chip answers wrongly ends the run, behind the steps it served.\<close>

lemma run_misheard:
  assumes "session_inv s" and "\<not> awaiting s" and "remaining s = pre @ st # post"
    and "on_line w l" and "all_sent l" and "incoming l = []" and drains: "drain_mode cfg = TcDrain \<or> prompt on_line"
    and "serves_all hear legible (mcu l) (line_rate l) pre c"
    and "\<forall>t \<in> set pre. expect t \<noteq> Nothing"
    and st: "expect st \<noteq> Nothing" "0 < timeout_ms st"
      "hear c (told_at (foldl answered_at (line_rate l) pre) st) (encode (frame st)) = (c1, q, ans)"
      "legible (answered_at (foldl answered_at (line_rate l) pre) st) q"
      "chatter_then 512 noise f ans" "\<not> reply_fits st f"
  shows "\<exists>e s' log' w'. run_loop W cfg receiver_new s log w = Some (Failed (wrap s' (SessionFailed e)), s', log', w')
    \<and> session_inv s' \<and> awaiting s' \<and> remaining s' = st # post"
proof -
  obtain s1 log1 w1 l1 where s1: "session_inv s1" "\<not> awaiting s1" "remaining s1 = st # post"
    and l1: "on_line w1 l1" "all_sent l1" "incoming l1 = []" "line_rate l1 = foldl answered_at (line_rate l) pre" "mcu l1 = c"
    and r: "run_loop W cfg receiver_new s log w = run_loop W cfg receiver_new s1 log1 w1"
    by (rule run_prefix [OF assms(1-9), of log]) (rule that)
  obtain s2 log2 w2 where s2: "session_inv s2" "awaiting s2" "remaining s2 = st # post"
    and r2: "run_loop W cfg receiver_new s1 log1 w1 =
       (case on_reply f s2 of
          None \<Rightarrow> Some (Panicked, s2, log2, w2)
        | Some (Inl e, s) \<Rightarrow> Some (Failed (wrap s (SessionFailed e)), s, log2, w2)
        | Some (Inr _, s) \<Rightarrow> run_loop W cfg receiver_new s log2 w2)"
    by (rule run_loop_heard [OF s1 l1(1-3) drains st(1,2) _ _ st(5), of c1 q log1])
      (use st(3,4) l1(4,5) in simp_all)
  from walk.answer_misfits [OF s2 st(6)] obtain e where "on_reply f s2 = Some (Inl e, s2)" by blast
  with r r2 s2 show ?thesis by auto
qed

section \<open>The handshake\<close>

lemma pulse_due_iff: "PULSE_EVERY \<le> elapsed lp t \<longleftrightarrow> lp + PULSE_EVERY \<le> t"
  by (auto simp: elapsed_def PULSE_EVERY_def millis_def max_def)

text \<open>
  One turn of the handshake on a quiet line: without a pulse that is due, with one that the chip
  misses, and with one that it answers by its status packet.
\<close>

lemma pulse_heard:
  assumes "on_line w l" and "all_sent l" and "incoming l = []" and due: "lp + PULSE_EVERY \<le> clk w"
    and h: "hear (mcu l) (line_rate l) [SYNC_BYTE] = (c, q, ans)"
  obtains w' l' where "sync_pulse W receiver_new lp lb log w = (Done (clk w), log, w')"
    "on_line w' l'" "mcu l' = c" "reply_rate l' = q" "incoming l' = ans" "line_rate l' = line_rate l"
    "clk w' = clk w"
proof -
  obtain w1 where w1: "clock_now W w = (clk w, w1)" "on_line w1 l" "clk w1 = clk w"
    using line_now [OF assms(1)] by blast
  define l2 where "l2 = heard hear [SYNC_BYTE] l"
  have l2: "mcu l2 = c" "reply_rate l2 = q" "incoming l2 = ans" "line_rate l2 = line_rate l"
    using h by (simp_all add: l2_def heard_def)
  obtain w2 where w2: "wire_write_all W [SYNC_BYTE] w1 = (Inr (), w2)" "on_line w2 l2" "clk w2 = clk w1"
    using line_write [OF w1(2) assms(2,3)] unfolding l2_def by blast
  obtain w3 where w3: "wire_flush W w2 = (Inr (), w3)" "on_line w3 l2" "clk w3 = clk w2"
    using line_flush [OF w2(2)] by blast
  obtain w4 where w4: "clock_now W w3 = (clk w3, w4)" "on_line w4 l2" "clk w4 = clk w3"
    using line_now [OF w3(2)] by blast
  have "sync_pulse W receiver_new lp lb log w = (Done (clk w), log, w4)"
    using w1 w2 w3 w4 due
    by (simp add: sync_pulse_def pending_def receiver_new_def andthen_def ret_def pass_def io_def pulse_due_iff)
  from that [OF this w4(2) l2] w1 w2 w3 w4 show thesis by simp
qed

lemma pulse_not_due:
  assumes "on_line w l" and "clk w < lp + PULSE_EVERY"
  obtains w' where "sync_pulse W receiver_new lp lb log w = (Done lp, log, w')"
    "on_line w' l" "clk w' = clk w"
proof -
  obtain w1 where w1: "clock_now W w = (clk w, w1)" "on_line w1 l" "clk w1 = clk w"
    using line_now [OF assms(1)] by blast
  have "sync_pulse W receiver_new lp lb log w = (Done lp, log, w1)"
    using w1 assms(2)
    by (simp add: sync_pulse_def pending_def receiver_new_def andthen_def ret_def pass_def pulse_due_iff)
  from that [OF this w1(2,3)] show thesis .
qed

lemma loop_answered:
  assumes "on_line w l" and "all_sent l" and "incoming l = []" and "lp + PULSE_EVERY \<le> clk w"
    and "clk w < started + wait" "0 < wait"
    and h: "hear (mcu l) (line_rate l) [SYNC_BYTE] = (c, q, ans)" and leg: "legible (line_rate l) q"
    and c: "chatter_then 256 noise f ans" and "is_status f"
  obtains log' w' l' where
    "handshake_loop W is_status p b wait started receiver_new lp lb 0 log w
      = Some (status_outcome p b f, log', w')"
    "on_line w' l'" "all_sent l'" "incoming l' = []" "mcu l' = c" "line_rate l' = line_rate l"
proof -
  obtain w1 where w1: "clock_now W w = (clk w, w1)" "on_line w1 l" "clk w1 = clk w"
    using line_now [OF assms(1)] by blast
  obtain w2 l2 where w2: "sync_pulse W receiver_new lp lb log w1 = (Done (clk w1), log, w2)"
    and l2: "on_line w2 l2" "mcu l2 = c" "reply_rate l2 = q" "incoming l2 = ans" "line_rate l2 = line_rate l"
    by (rule pulse_heard [OF w1(2) assms(2,3) _ h, of lp lb log]) (use assms(4) w1(3) in simp_all)
  have len: "length ans \<le> 256" using c unfolding chatter_then_def by blast
  have "legible (line_rate l2) (reply_rate l2)" using leg l2 by simp
  from line_read [OF l2(1) disjI2, OF this, of 256] len l2(4)
  obtain w3 where w3: "wire_read W 256 w2 = (Inr ans, w3)"
    "on_line w3 (l2\<lparr>incoming := [], all_sent := True\<rparr>)" by auto
  obtain w4 where w4: "clock_now W w3 = (clk w3, w4)" "on_line w4 (l2\<lparr>incoming := [], all_sent := True\<rparr>)"
    using line_now [OF w3(2)] by blast
  have "next_frame (feed ans receiver_new) = (Some (Inr f), \<lparr>buf = [], discarded = noise\<rparr>)"
    using receive_chatter [OF c] by simp
  then obtain rx n log' where
    dr: "handshake_drain is_status p b (feed ans receiver_new) 0 log = (Some (status_outcome p b f), rx, n, log')"
    using assms(10)
    by (cases "count_noise \<lparr>buf = [], discarded = noise\<rparr> 0 log")
      (simp add: handshake_drain.simps status_outcome_def split: sum.split)
  have "handshake_loop W is_status p b wait started receiver_new lp lb 0 log w
      = Some (status_outcome p b f, log', w4)"
    using w1 w2 w3 w4 dr len chatter_then_nonempty [OF c] assms(5,6)
    by (simp add: handshake_loop.simps elapsed_def)
  from that [OF this w4(2)] l2 show thesis by simp
qed

lemma handshake_heard:
  assumes "on_line w l" and "all_sent l" and "incoming l = []" and "0 < wait"
    and h: "hear (mcu l) (handshake_baud opts) [SYNC_BYTE] = (c, q, ans)" and leg: "legible (handshake_baud opts) q"
    and c: "chatter_then 256 noise f ans" and st: "is_status f"
  obtains log' w' l' where
    "handshake W is_status p opts wait log w = Some (status_outcome p (handshake_baud opts) f, log', w')"
    "on_line w' l'" "all_sent l'" "incoming l' = []" "mcu l' = c" "line_rate l' = handshake_baud opts"
proof -
  let ?l = "l\<lparr>line_rate := handshake_baud opts\<rparr>"
  obtain w1 where w1: "wire_set_baud W (handshake_baud opts) w = (Inr (), w1)" "on_line w1 ?l"
    using line_baud [OF assms(1,2)] by blast
  obtain w2 where w2: "clock_now W w1 = (clk w1, w2)" "on_line w2 ?l" "clk w2 = clk w1"
    using line_now [OF w1(2)] by blast
  have hs: "handshake W is_status p opts wait log w =
      handshake_loop W is_status p (handshake_baud opts) wait (clk w1) receiver_new (clk w1 - PULSE_EVERY) (clk w1) 0 log w2"
    using w1 w2 by (simp add: handshake_def io_def)
  have l: "all_sent ?l" "incoming ?l = []" "hear (mcu ?l) (line_rate ?l) [SYNC_BYTE] = (c, q, ans)"
    "legible (line_rate ?l) q" using assms(2-6) by simp_all
  have due: "clk w1 - PULSE_EVERY + PULSE_EVERY \<le> clk w2" "clk w2 < clk w1 + wait" using w2(3) assms(4) by simp_all
  show thesis
    by (rule loop_answered [where is_status = is_status and f = f and p = p and b = "handshake_baud opts"
          and lb = "clk w1" and log = log, OF w2(2) l(1,2) due assms(4) l(3,4) c st])
      (rule that [unfolded hs], (assumption | simp)+)
qed

end

section \<open>A chip that sleeps\<close>

text \<open>The chip after \<open>n\<close> pulses at rate \<open>b\<close> that it does not answer.\<close>

fun missing :: "('c, 'r) hearing \<Rightarrow> u32 \<Rightarrow> nat \<Rightarrow> 'c \<Rightarrow> 'c option" where
  "missing hear b 0 c = Some c"
| "missing hear b (Suc n) c =
     (case hear c b [SYNC_BYTE] of (c', _, ans) \<Rightarrow> if ans = [] then missing hear b n c' else None)"

lemma count_noise_new: "count_noise receiver_new n log = (receiver_new, n, log)"
  by (simp add: count_noise_def take_discarded_def receiver_new_def)

lemma drain_new: "handshake_drain is_status p b receiver_new n log = (None, receiver_new, n, log)"
  by (simp add: handshake_drain.simps next_frame_new)

context polled_wire
begin

lemma quiet_read:
  assumes "on_line w l" and "incoming l = []"
  obtains w' where "wire_read W n w = (Inr [], w')" "on_line w' (l\<lparr>all_sent := True\<rparr>)"
    "clk w < clk w'" "clk w' \<le> clk w + READ_POLL"
proof -
  obtain w' where r: "wire_read W n w = (Inr [], w')" "on_line w' (l\<lparr>incoming := [], all_sent := True\<rparr>)"
    using line_read [OF assms(1) disjI1, OF assms(2)] assms(2) by auto
  moreover have "l\<lparr>incoming := [], all_sent := True\<rparr> = l\<lparr>all_sent := True\<rparr>" using assms(2) by simp
  ultimately show thesis using that [of w'] read_polls [OF assms, of n] by simp
qed

lemma loop_missed:
  assumes "on_line w l" and "all_sent l" and "incoming l = []" and "lp + PULSE_EVERY \<le> clk w"
    and "clk w < started + wait" "0 < wait"
    and h: "hear (mcu l) (line_rate l) [SYNC_BYTE] = (c, q, [])"
  obtains w' l' where
    "handshake_loop W is_status p b wait started receiver_new lp lb 0 log w
      = handshake_loop W is_status p b wait started receiver_new (clk w) lb 0 log w'"
    "on_line w' l'" "all_sent l'" "incoming l' = []" "mcu l' = c" "line_rate l' = line_rate l"
    "clk w' \<le> clk w + READ_POLL"
proof -
  obtain w1 where w1: "clock_now W w = (clk w, w1)" "on_line w1 l" "clk w1 = clk w"
    using line_now [OF assms(1)] by blast
  obtain w2 l2 where w2: "sync_pulse W receiver_new lp lb log w1 = (Done (clk w1), log, w2)"
    and l2: "on_line w2 l2" "mcu l2 = c" "incoming l2 = []" "line_rate l2 = line_rate l" "clk w2 = clk w1"
    by (rule pulse_heard [OF w1(2) assms(2,3) _ h, of lp lb log]) (use assms(4) w1(3) in simp_all)
  obtain w3 where w3: "wire_read W 256 w2 = (Inr [], w3)" "on_line w3 (l2\<lparr>all_sent := True\<rparr>)"
    "clk w3 \<le> clk w2 + READ_POLL"
    by (rule quiet_read [OF l2(1,3), of 256])
  have "handshake_loop W is_status p b wait started receiver_new lp lb 0 log w
      = handshake_loop W is_status p b wait started receiver_new (clk w) lb 0 log w3"
    using w1 w2 w3(1) assms(5,6)
    by (subst handshake_loop.simps) (simp add: elapsed_def count_noise_new drain_new)
  from that [OF this w3(2)] l2 w1(3) w3(3) show thesis by simp
qed

lemma loop_idle:
  assumes "on_line w l" and "all_sent l" and "incoming l = []" and "clk w < lp + PULSE_EVERY"
    and "clk w < started + wait" "0 < wait"
  obtains w' where
    "handshake_loop W is_status p b wait started receiver_new lp lb 0 log w
      = handshake_loop W is_status p b wait started receiver_new lp lb 0 log w'"
    "on_line w' l" "clk w < clk w'" "clk w' \<le> clk w + READ_POLL"
proof -
  obtain w1 where w1: "clock_now W w = (clk w, w1)" "on_line w1 l" "clk w1 = clk w"
    using line_now [OF assms(1)] by blast
  obtain w2 where w2: "sync_pulse W receiver_new lp lb log w1 = (Done lp, log, w2)" "on_line w2 l" "clk w2 = clk w1"
    by (rule pulse_not_due [OF w1(2), of lp lb log]) (use assms(4) w1(3) in simp_all)
  obtain w3 where w3: "wire_read W 256 w2 = (Inr [], w3)" "on_line w3 (l\<lparr>all_sent := True\<rparr>)"
    "clk w2 < clk w3" "clk w3 \<le> clk w2 + READ_POLL"
    by (rule quiet_read [OF w2(2) assms(3), of 256])
  have "handshake_loop W is_status p b wait started receiver_new lp lb 0 log w
      = handshake_loop W is_status p b wait started receiver_new lp lb 0 log w3"
    using w1 w2 w3(1) assms(5,6)
    by (subst handshake_loop.simps) (simp add: elapsed_def count_noise_new drain_new)
  moreover have "l\<lparr>all_sent := True\<rparr> = l" using assms(2) by simp
  ultimately show thesis using that w1 w2 w3 by simp
qed

text \<open>The next pulse is due within a poll of its time.\<close>

lemma loop_until_due:
  assumes "on_line w l" and "all_sent l" and "incoming l = []" and "0 < wait"
    and "clk w < started + wait" "lp + PULSE_EVERY + READ_POLL \<le> started + wait"
  obtains w' where
    "handshake_loop W is_status p b wait started receiver_new lp lb 0 log w
      = handshake_loop W is_status p b wait started receiver_new lp lb 0 log w'"
    "on_line w' l" "lp + PULSE_EVERY \<le> clk w'" "clk w' < max (clk w + 1) (lp + PULSE_EVERY + READ_POLL)"
  using assms(1,5)
proof (induction "nat (lp + PULSE_EVERY - clk w)" arbitrary: w thesis rule: less_induct)
  case less
  show ?case
  proof (cases "lp + PULSE_EVERY \<le> clk w")
    case True
    show ?thesis by (rule less.prems(1) [OF refl less.prems(2) True]) simp
  next
    case False
    obtain w1 where w1: "handshake_loop W is_status p b wait started receiver_new lp lb 0 log w
      = handshake_loop W is_status p b wait started receiver_new lp lb 0 log w1"
      "on_line w1 l" "clk w < clk w1" "clk w1 \<le> clk w + READ_POLL"
      by (rule loop_idle [OF less.prems(2) assms(2,3) _ less.prems(3) assms(4), of lp is_status p b lb log])
        (use False in simp_all)
    have "nat (lp + PULSE_EVERY - clk w1) < nat (lp + PULSE_EVERY - clk w)" using False w1(3) by simp
    moreover have "clk w1 < started + wait" using False w1(4) assms(6) by simp
    ultimately obtain w2 where w2: "handshake_loop W is_status p b wait started receiver_new lp lb 0 log w1
      = handshake_loop W is_status p b wait started receiver_new lp lb 0 log w2"
      "on_line w2 l" "lp + PULSE_EVERY \<le> clk w2" "clk w2 < max (clk w1 + 1) (lp + PULSE_EVERY + READ_POLL)"
      using less.hyps [of w1] w1(2) by blast
    show ?thesis
      by (rule less.prems(1) [OF _ w2(2,3)]) (use w1 w2 False in \<open>simp_all add: max_def split: if_splits\<close>)
  qed
qed

text \<open>
  However many pulses the chip sleeps through, it is found, if the patience covers them: two
  pulses are never further apart than \<open>PULSE_EVERY + READ_POLL\<close>.
\<close>

lemma loop_woken:
  assumes "on_line w l" and "all_sent l" and "incoming l = []"
    and "missing hear (line_rate l) n (mcu l) = Some c1"
    and h: "hear c1 (line_rate l) [SYNC_BYTE] = (c2, q, ans)" and leg: "legible (line_rate l) q"
    and c: "chatter_then 256 noise f ans" and st: "is_status f" and wait: "0 < wait"
    and "max (clk w) (lp + PULSE_EVERY + READ_POLL) + int n * (PULSE_EVERY + READ_POLL) < started + wait"
  obtains log' w' l' where
    "handshake_loop W is_status p b wait started receiver_new lp lb 0 log w
      = Some (status_outcome p b f, log', w')"
    "on_line w' l'" "all_sent l'" "incoming l' = []" "mcu l' = c2" "line_rate l' = line_rate l"
  using assms(1-4,10) h leg
proof (induction n arbitrary: w l lp thesis)
  case (0 w l lp)
  obtain w1 where w1: "handshake_loop W is_status p b wait started receiver_new lp lb 0 log w
      = handshake_loop W is_status p b wait started receiver_new lp lb 0 log w1"
    "on_line w1 l" "lp + PULSE_EVERY \<le> clk w1" "clk w1 < max (clk w + 1) (lp + PULSE_EVERY + READ_POLL)"
    by (rule loop_until_due [OF 0(2-4) wait, of started lp is_status p b lb log]) (use 0(6) in simp_all)
  have t: "clk w1 < started + wait" using w1(4) 0(6) by (simp add: max_def split: if_splits)
  have h0: "hear (mcu l) (line_rate l) [SYNC_BYTE] = (c2, q, ans)" using 0(5,7) by simp
  show ?case
    by (rule loop_answered [where is_status = is_status and f = f and p = p and b = b and lb = lb and log = log,
          OF w1(2) 0(3,4) w1(3) t wait h0 0(8) c st]) (rule 0(1) [unfolded w1(1)], assumption+)
next
  case (Suc n w l lp)
  obtain w1 where w1: "handshake_loop W is_status p b wait started receiver_new lp lb 0 log w
      = handshake_loop W is_status p b wait started receiver_new lp lb 0 log w1"
    "on_line w1 l" "lp + PULSE_EVERY \<le> clk w1" "clk w1 < max (clk w + 1) (lp + PULSE_EVERY + READ_POLL)"
    by (rule loop_until_due [OF Suc(3-5) wait, of started lp is_status p b lb log])
      (use Suc(7) in \<open>simp_all add: PULSE_EVERY_def READ_POLL_def millis_def algebra_simps max_def split: if_splits\<close>)
  have t: "clk w1 + PULSE_EVERY + READ_POLL + int n * (PULSE_EVERY + READ_POLL) < started + wait"
    using w1(4) Suc(7)
    by (simp add: PULSE_EVERY_def READ_POLL_def millis_def algebra_simps max_def split: if_splits)
  then have it: "clk w1 < started + wait"
    by (simp add: PULSE_EVERY_def READ_POLL_def millis_def)
  obtain c' q' where m: "hear (mcu l) (line_rate l) [SYNC_BYTE] = (c', q', [])"
    "missing hear (line_rate l) n c' = Some c1"
    using Suc(6) by (auto split: prod.splits if_splits)
  obtain w2 l2 where w2:
    "handshake_loop W is_status p b wait started receiver_new lp lb 0 log w1
      = handshake_loop W is_status p b wait started receiver_new (clk w1) lb 0 log w2"
    "on_line w2 l2" "all_sent l2" "incoming l2 = []" "mcu l2 = c'" "line_rate l2 = line_rate l"
    "clk w2 \<le> clk w1 + READ_POLL"
    by (rule loop_missed [OF w1(2) Suc(4,5) w1(3) it wait m(1), of is_status p b lb log]) (rule that)
  have t2: "max (clk w2) (clk w1 + PULSE_EVERY + READ_POLL) + int n * (PULSE_EVERY + READ_POLL) < started + wait"
    using t w2(7) by (simp add: PULSE_EVERY_def READ_POLL_def millis_def)
  have m2: "missing hear (line_rate l2) n (mcu l2) = Some c1" using m(2) w2(5,6) by simp
  show ?case
    by (rule Suc.IH [OF _ w2(2-4) m2 t2]) (use w1(1) w2(1,6) Suc(2,8,9) in simp_all)
qed

lemma handshake_woken:
  assumes "on_line w l" and "all_sent l" and "incoming l = []"
    and "missing hear (handshake_baud opts) n (mcu l) = Some c1"
    and h: "hear c1 (handshake_baud opts) [SYNC_BYTE] = (c2, q, ans)" and leg: "legible (handshake_baud opts) q"
    and c: "chatter_then 256 noise f ans" and st: "is_status f"
    and wait: "READ_POLL + int n * (PULSE_EVERY + READ_POLL) < wait"
  obtains log' w' l' where
    "handshake W is_status p opts wait log w = Some (status_outcome p (handshake_baud opts) f, log', w')"
    "on_line w' l'" "all_sent l'" "incoming l' = []" "mcu l' = c2" "line_rate l' = handshake_baud opts"
proof -
  let ?l = "l\<lparr>line_rate := handshake_baud opts\<rparr>"
  obtain w1 where w1: "wire_set_baud W (handshake_baud opts) w = (Inr (), w1)" "on_line w1 ?l"
    using line_baud [OF assms(1,2)] by blast
  obtain w2 where w2: "clock_now W w1 = (clk w1, w2)" "on_line w2 ?l" "clk w2 = clk w1"
    using line_now [OF w1(2)] by blast
  have "0 \<le> int n * (PULSE_EVERY + READ_POLL)" by (simp add: PULSE_EVERY_def READ_POLL_def millis_def)
  with wait have "0 < wait" by (simp add: READ_POLL_def millis_def)
  moreover have "max (clk w2) ((clk w1 - PULSE_EVERY) + PULSE_EVERY + READ_POLL) + int n * (PULSE_EVERY + READ_POLL)
      < clk w1 + wait"
    using wait w2(3) by (simp add: READ_POLL_def millis_def)
  moreover have "all_sent ?l" "incoming ?l = []" "missing hear (line_rate ?l) n (mcu ?l) = Some c1"
    "hear c1 (line_rate ?l) [SYNC_BYTE] = (c2, q, ans)" "legible (line_rate ?l) q"
    using assms(2-6) by simp_all
  ultimately obtain log' w' l' where
    "handshake_loop W is_status p (handshake_baud opts) wait (clk w1) receiver_new (clk w1 - PULSE_EVERY) (clk w1) 0 log w2
      = Some (status_outcome p (handshake_baud opts) f, log', w')"
    "on_line w' l'" "all_sent l'" "incoming l' = []" "mcu l' = c2" "line_rate l' = line_rate ?l"
    using loop_woken [where w = w2 and l = ?l and started = "clk w1" and wait = wait and lp = "clk w1 - PULSE_EVERY"
        and p = p and b = "handshake_baud opts" and lb = "clk w1" and log = log and is_status = is_status,
        OF w2(2) _ _ _ _ _ c st] by blast
  with w1 w2 that show thesis by (simp add: handshake_def io_def)
qed

section \<open>A chip that falls silent\<close>

lemma await_quiet:
  assumes "on_line w l" and "incoming l = []"
  shows "\<exists>w'. await_reply W s lbl ms deadline receiver_new log w
    = Some (Failed (wrap s (Timeout lbl ms)), receiver_new, log, w')"
  using assms
proof (induction "nat (deadline - clk w)" arbitrary: w l rule: less_induct)
  case less
  obtain w1 where w1: "clock_now W w = (clk w, w1)" "on_line w1 l" "clk w1 = clk w"
    using line_now [OF less.prems(1)] by blast
  show ?case
  proof (cases "deadline \<le> clk w")
    case True
    with w1 show ?thesis by (simp add: await_reply.simps next_frame_new)
  next
    case False
    obtain w2 where w2: "wire_read W 512 w1 = (Inr [], w2)" "on_line w2 (l\<lparr>all_sent := True\<rparr>)" "clk w1 < clk w2"
      by (rule quiet_read [OF w1(2) less.prems(2), of 512])
    have "await_reply W s lbl ms deadline receiver_new log w = await_reply W s lbl ms deadline receiver_new log w2"
      using w1 w2 False by (subst await_reply.simps) (simp add: next_frame_new)
    moreover have "nat (deadline - clk w2) < nat (deadline - clk w)" using False w1(3) w2(3) by simp
    ultimately show ?thesis using less.hyps [OF _ w2(2)] less.prems(2) by simp
  qed
qed

text \<open>A step the chip does not answer at all ends the run with the error that names the step.\<close>

lemma run_unheard:
  assumes "session_inv s" and "\<not> awaiting s" and "remaining s = pre @ st # post"
    and "on_line w l" and "all_sent l" and "incoming l = []" and drains: "drain_mode cfg = TcDrain \<or> prompt on_line"
    and "serves_all hear legible (mcu l) (line_rate l) pre c"
    and "\<forall>t \<in> set pre. expect t \<noteq> Nothing" and ex: "expect st \<noteq> Nothing"
    and h: "hear c (told_at (foldl answered_at (line_rate l) pre) st) (encode (frame st)) = (c1, q, [])"
  shows "\<exists>s' log' w'. run_loop W cfg receiver_new s log w
      = Some (Failed (wrap s' (Timeout (label st) (timeout_ms st))), s', log', w')
    \<and> awaiting s' \<and> remaining s' = st # post"
proof -
  obtain s1 log1 w1 l1 where s1: "session_inv s1" "\<not> awaiting s1" "remaining s1 = st # post"
    and l1: "on_line w1 l1" "all_sent l1" "incoming l1 = []" "line_rate l1 = foldl answered_at (line_rate l) pre" "mcu l1 = c"
    and r: "run_loop W cfg receiver_new s log w = run_loop W cfg receiver_new s1 log1 w1"
    by (rule run_prefix [OF assms(1-9), of log]) (rule that)
  from next_action_send [OF s1] ex obtain i s2 where
    act: "next_action s1 = Some (send_action i st, s2)" and s2: "awaiting s2" "remaining s2 = st # post" by auto
  have h1: "hear (mcu l1) (told_at (line_rate l1) st) (encode (frame st)) = (c1, q, [])" using h l1(4,5) by simp
  obtain log2 w2 l2 where
    send: "send_frame W cfg s2 (label st) (encode (frame st)) (retune_before_send st) (retune_after_send st)
      receiver_new log1 w1 = (Done receiver_new, log2, w2)"
    and l2: "on_line w2 l2" "incoming l2 = []"
    by (rule send_step_heard [OF l1(1-3) drains h1, of s2 log1])
  obtain w3 where now: "clock_now W w2 = (clk w2, w3)" "on_line w3 l2"
    using line_now [OF l2(1)] by blast
  obtain w4 where "await_reply W s2 (label st) (timeout_ms st) (clk w2 + millis (int (unat (timeout_ms st))))
      receiver_new log2 w3 = Some (Failed (wrap s2 (Timeout (label st) (timeout_ms st))), receiver_new, log2, w4)"
    using await_quiet [OF now(2) l2(2)] by blast
  then have "run_loop W cfg receiver_new s1 log1 w1
      = Some (Failed (wrap s2 (Timeout (label st) (timeout_ms st))), s2, log2, w4)"
    using act send ex now(1) by (simp add: run_loop.simps [of _ _ receiver_new s1] send_action_def)
  with r s2 show ?thesis by auto
qed

end

end
