(* ===== verification/Driver_Chip.thy ===== *)
theory Driver_Chip imports Driver_Uart begin

text \<open>
  The simplest chip at the end of the line. \<open>obliging_wire\<close> is the contract of a wire whose rate does not
  matter: what is written is answered at once, by a function of the bytes, and the answers queue
  up until they are read. It is a \<open>uart_wire\<close>, whose lemmas then speak of it.
\<close>

section \<open>The contract\<close>

locale obliging_wire =
  fixes W :: "'w wire" and reply :: "u8 list \<Rightarrow> u8 list" and queue :: "'w \<Rightarrow> u8 list" and clk :: "'w \<Rightarrow> int"
  assumes write_queues: "\<exists>w'. wire_write_all W bs w = (Inr (), w') \<and> queue w' = queue w @ reply bs \<and> clk w' = clk w"
    and flush_keeps: "\<exists>w'. wire_flush W w = (Inr (), w') \<and> queue w' = queue w \<and> clk w' = clk w"
    and drain_keeps: "\<exists>w'. wire_drain W w = (Inr (), w') \<and> queue w' = queue w"
    and baud_keeps: "\<exists>w'. wire_set_baud W b w = (Inr (), w') \<and> queue w' = queue w"
    and sleep_keeps: "queue (clock_sleep W d w) = queue w"
    and now_reads: "\<exists>w'. clock_now W w = (clk w, w') \<and> queue w' = queue w \<and> clk w' = clk w"
    and read_takes: "\<exists>w'. wire_read W n w = (Inr (take n (queue w)), w') \<and> queue w' = drop n (queue w)"

definition answering :: "(u8 list \<Rightarrow> u8 list) \<Rightarrow> (unit, unit) hearing" where
  "answering reply = (\<lambda>_ _ bs. ((), (), reply bs))"

definition queues :: "('w \<Rightarrow> u8 list) \<Rightarrow> 'w \<Rightarrow> (unit, unit) line \<Rightarrow> bool" where
  "queues queue w l \<longleftrightarrow> incoming l = queue w"

lemma prompt_queues: "prompt (queues queue)"
  by (simp add: prompt_def queues_def)

sublocale obliging_wire \<subseteq> uart: uart_wire W "answering reply" "\<lambda>_ _. True" "queues queue" clk
proof unfold_locales
  fix w and l :: "(unit, unit) line" and bs b d n
  assume l: "queues queue w l"
  show "\<exists>w'. wire_write_all W bs w = (Inr (), w') \<and> queues queue w' (heard (answering reply) bs l) \<and> clk w' = clk w"
    if "incoming l = []"
    using write_queues [of bs w] l that by (auto simp: queues_def heard_def answering_def)
  show "\<exists>w'. wire_flush W w = (Inr (), w') \<and> queues queue w' l \<and> clk w' = clk w"
    using flush_keeps [of w] l by (auto simp: queues_def)
  show "\<exists>w'. wire_drain W w = (Inr (), w') \<and> queues queue w' (l\<lparr>all_sent := True\<rparr>)"
    using drain_keeps [of w] l by (auto simp: queues_def)
  show "\<exists>w'. wire_set_baud W b w = (Inr (), w') \<and> queues queue w' (l\<lparr>line_rate := b\<rparr>)"
    using baud_keeps [of b w] l by (auto simp: queues_def)
  show "queues queue (clock_sleep W d w) l"
    using sleep_keeps [of d w] l by (auto simp: queues_def)
  show "\<exists>w'. clock_now W w = (clk w, w') \<and> queues queue w' l \<and> clk w' = clk w"
    using now_reads [of w] l by (auto simp: queues_def)
  show "\<exists>w'. wire_read W n w = (Inr (take n (incoming l)), w')
      \<and> queues queue w' (l\<lparr>incoming := drop n (incoming l), all_sent := True\<rparr>)"
    using read_takes [of n w] l by (auto simp: queues_def)
qed

context obliging_wire
begin

lemma as_uart: "uart_wire W (answering reply) (\<lambda>_ _. True) (queues queue) clk"
  by (rule uart.uart_wire_axioms)

end

section \<open>Steps it serves\<close>

text \<open>A step whose frame the chip answers with a fitting reply that one read can take.\<close>

definition served :: "(u8 list \<Rightarrow> u8 list) \<Rightarrow> step \<Rightarrow> bool" where
  "served reply st \<longleftrightarrow>
     (if expect st = Nothing then reply (encode (frame st)) = []
      else 0 < timeout_ms st
        \<and> (\<exists>f. reply (encode (frame st)) = encode f \<and> length (encode f) \<le> 512 \<and> reply_fits st f))"

lemma chatter_none: "length (encode f) \<le> n \<Longrightarrow> chatter_then n [] f (encode f)"
  by (simp only: chatter_then_def) simp

lemma served_serves: "served reply st \<Longrightarrow> serves (answering reply) (\<lambda>_ _. True) c r st ()"
  using chatter_none by (fastforce simp: served_def serves_def answering_def)

lemma served_serves_all:
  "\<forall>st \<in> set sts. served reply st \<Longrightarrow> \<forall>st \<in> set (butlast sts). expect st \<noteq> Nothing \<Longrightarrow>
     serves_all (answering reply) (\<lambda>_ _. True) c r sts ()"
  by (induction sts arbitrary: r) (auto intro: served_serves split: if_splits)

end
