(* ===== verification/Stc89.thy ===== *)
theory Stc89 imports Protocol begin

text \<open>
  The STC89 family of \<open>src/src/protocol/stc89.rs\<close>: its constants, the frequency and
  timer-reload arithmetic on words of the code's width, the frame builders,
  \<open>is_status_frame\<close>, \<open>parse_status\<close> and \<open>plan\<close>. An arithmetic operation that
  could overflow wraps, as in the release profile of the crate. The lemmas
  characterise the arithmetic, the layout of a plan and what it programs, and
  interpret the locale \<open>protocol_family\<close>.
\<close>

section \<open>Constants\<close>

definition CMD_STATUS :: u8 where "CMD_STATUS = 0x00"
definition CMD_WRITE :: u8 where "CMD_WRITE = 0x00"
definition CMD_BAUD_PROBE :: u8 where "CMD_BAUD_PROBE = 0x8F"
definition CMD_BAUD_COMMIT :: u8 where "CMD_BAUD_COMMIT = 0x8E"
definition CMD_LINK_TEST :: u8 where "CMD_LINK_TEST = 0x80"
definition CMD_ERASE :: u8 where "CMD_ERASE = 0x84"
definition CMD_OPTIONS :: u8 where "CMD_OPTIONS = 0x8D"
definition CMD_RUN :: u8 where "CMD_RUN = 0x82"

definition STATUS_PAYLOAD_LEN :: nat where "STATUS_PAYLOAD_LEN = 52"
definition OFF_FREQ :: nat where "OFF_FREQ = 0"
definition FREQ_WORD_COUNT :: nat where "FREQ_WORD_COUNT = 8"
definition OFF_VERSION :: nat where "OFF_VERSION = 16"
definition OFF_OPTION :: nat where "OFF_OPTION = 18"
definition OFF_CHIP_ID :: nat where "OFF_CHIP_ID = 19"
definition CHIP_ID_LEN :: nat where "CHIP_ID_LEN = 2"

definition FREQ_NUM :: u64 where "FREQ_NUM = 12"
definition FREQ_DEN :: u64 where "FREQ_DEN = 7"
definition FREQ_MIN_HZ :: u64 where "FREQ_MIN_HZ = 1000000"
definition FREQ_MAX_HZ :: u64 where "FREQ_MAX_HZ = 48000000"

definition BAUD_CONSTS :: "u8 list" where "BAUD_CONSTS = [0x00, 0x06, 0xA0]"
definition BAUD_PROBE_TAIL :: u8 where "BAUD_PROBE_TAIL = 0x81"
definition LINK_TEST_PREFIX :: "u8 list" where "LINK_TEST_PREFIX = [0x00, 0x00, 0x36, 0x01]"
definition LINK_TEST_REPEATS :: nat where "LINK_TEST_REPEATS = 4"
definition LINK_TEST_ACK_PAYLOAD :: "u8 list" where "LINK_TEST_ACK_PAYLOAD = []"
definition ERASE_FILL :: "u8 list" where "ERASE_FILL = replicate 6 0x33"
definition ERASE_REPLY_LEN :: nat where "ERASE_REPLY_LEN = 7"
definition ERASE_BLOCK :: nat where "ERASE_BLOCK = 256"
definition ERASE_GRANULE :: nat where "ERASE_GRANULE = 512"
definition WRITE_BLOCK :: nat where "WRITE_BLOCK = 128"
definition OPTIONS_TAIL :: "u8 list" where "OPTIONS_TAIL = replicate 3 0xFF"

definition KNOWN_CHIPS :: "(u8 list \<times> string \<times> nat \<times> nat) list" where
  "KNOWN_CHIPS = [([0xF0, 0x02], ''STC89C52RC/LE52RC'', 8 * 1024, 6 * 1024)]"

lemmas stc89_commands = CMD_STATUS_def CMD_WRITE_def CMD_BAUD_PROBE_def CMD_BAUD_COMMIT_def
  CMD_LINK_TEST_def CMD_ERASE_def CMD_OPTIONS_def CMD_RUN_def REPLY_ACK_def

lemmas stc89_layout = STATUS_PAYLOAD_LEN_def OFF_FREQ_def FREQ_WORD_COUNT_def OFF_VERSION_def
  OFF_OPTION_def OFF_CHIP_ID_def CHIP_ID_LEN_def

lemmas stc89_blocks = ERASE_BLOCK_def ERASE_GRANULE_def WRITE_BLOCK_def

section \<open>Arithmetic\<close>

definition frequency_hz :: "u16 \<Rightarrow> u32 \<Rightarrow> u64" where
  "frequency_hz word baud = (ucast word * ucast baud * FREQ_NUM) div FREQ_DEN"

definition timer_reload :: "u64 \<Rightarrow> u32 \<Rightarrow> protocol_error + u8" where
  "timer_reload f_osc baud =
     (let denom = ucast baud * 32 :: u64
      in if denom = 0 then Inl (UnreachableBaud baud 0)
         else let ticks = (f_osc + denom div 2) div denom;
                  reload = 256 - sint ticks
              in if \<not> (1 \<le> reload \<and> reload \<le> 255) then Inl (UnreachableBaud baud reload)
                 else Inr (of_int reload))"

definition reload_field :: "u8 \<Rightarrow> u8 list" where
  "reload_field reload = to_be16 (of_int (0x10000 - (256 - uint reload)))"

text \<open>\<open>usize::div_ceil\<close>\<close>

definition div_ceil :: "nat \<Rightarrow> nat \<Rightarrow> nat" where
  "div_ceil a b = (if a mod b = 0 then a div b else a div b + 1)"

definition erase_blocks_for :: "nat \<Rightarrow> nat" where
  "erase_blocks_for image_len = 2 * div_ceil image_len ERASE_GRANULE"

section \<open>Frames\<close>

definition baud_probe_frame :: "u8 \<Rightarrow> frame" where
  "baud_probe_frame reload =
     frame_host CMD_BAUD_PROBE (reload_field reload @ BAUD_CONSTS @ [BAUD_PROBE_TAIL])"

definition baud_commit_frame :: "u8 \<Rightarrow> frame" where
  "baud_commit_frame reload = frame_host CMD_BAUD_COMMIT (reload_field reload @ BAUD_CONSTS)"

definition link_test_frame :: "u8 list \<Rightarrow> frame" where
  "link_test_frame chip = frame_host CMD_LINK_TEST (LINK_TEST_PREFIX @ chip)"

definition erase_frame :: "u8 \<Rightarrow> frame" where
  "erase_frame blocks = frame_host CMD_ERASE ([blocks] @ ERASE_FILL)"

definition write_frame :: "u32 \<Rightarrow> u8 list \<Rightarrow> frame" where
  "write_frame addr data =
     frame_host CMD_WRITE (to_be32 addr @ to_be16 (of_nat (length data)) @ data)"

definition block_ack :: "u8 list \<Rightarrow> u8" where
  "block_ack data = foldl (\<lambda>a b. a + b) 0 data"

definition options_frame :: "target_info \<Rightarrow> frame" where
  "options_frame info = frame_host CMD_OPTIONS (option_bytes info @ OPTIONS_TAIL)"

definition run_frame :: frame where
  "run_frame = frame_host CMD_RUN []"

section \<open>The status packet\<close>

definition is_status_frame :: "frame \<Rightarrow> bool" where
  "is_status_frame f \<longleftrightarrow>
     dir f = McuToHost \<and> cmd f = CMD_STATUS \<and> OFF_CHIP_ID + CHIP_ID_LEN \<le> length (payload f)"

definition status_words :: "u8 list \<Rightarrow> u16 list" where
  "status_words p =
     map (\<lambda>i. let o' = OFF_FREQ + i * 2 in from_be16 (p ! o') (p ! (o' + 1))) [0..<FREQ_WORD_COUNT]"

definition status_version :: "u8 list \<Rightarrow> string" where
  "status_version p =
     fmt_dec (unat (drop_bit 4 (p ! OFF_VERSION))) @ ''.''
     @ fmt_dec (unat (p ! OFF_VERSION AND 0x0F)) @ utf8 (unat (p ! (OFF_VERSION + 1)))"

definition parse_status :: "frame \<Rightarrow> u32 \<Rightarrow> protocol_error + target_info" where
  "parse_status f baud =
     (if cmd f \<noteq> CMD_STATUS \<or> dir f \<noteq> McuToHost then Inl (NotAStatusFrame (cmd f))
      else let p = payload f
           in if length p < STATUS_PAYLOAD_LEN then Inl (ShortStatus (length p) STATUS_PAYLOAD_LEN)
      else let words = status_words p
           in if \<exists>w \<in> set words. w \<noteq> words ! 0 then Inl (InconsistentFrequency words)
      else let hz = frequency_hz (words ! 0) baud
           in if \<not> (FREQ_MIN_HZ \<le> hz \<and> hz \<le> FREQ_MAX_HZ) then Inl (ImplausibleFrequency hz)
      else let chip = take CHIP_ID_LEN (drop OFF_CHIP_ID p);
               known = find (\<lambda>(id, _). id = chip) KNOWN_CHIPS
           in Inr \<lparr>family = ''stc89'', chip_id = chip,
                   model = map_option (\<lambda>(_, n, _, _). n) known,
                   code_flash = map_option (\<lambda>(_, _, c, _). c) known,
                   eeprom_flash = map_option (\<lambda>(_, _, _, e). e) known,
                   bsl_version = status_version p,
                   measured_hz = hz,
                   freq_words = words,
                   option_bytes = [p ! OFF_OPTION],
                   raw_status = p\<rparr>)"

section \<open>The plan\<close>

definition baud_probe_step :: "session_options \<Rightarrow> u8 \<Rightarrow> step" where
  "baud_probe_step opts reload =
     \<lparr>phase = BaudProbe,
      label = ''baud probe -> '' @ fmt_dec (unat (transfer_baud opts)) @ '' baud'',
      frame = baud_probe_frame reload, expect = Echo, timeout_ms = reply_timeout_ms opts,
      retune_before_send = None, retune_after_send = Some (transfer_baud opts), write_addr = None\<rparr>"

definition baud_commit_step :: "session_options \<Rightarrow> u8 \<Rightarrow> step" where
  "baud_commit_step opts reload =
     \<lparr>phase = BaudCommit,
      label = ''baud commit -> '' @ fmt_dec (unat (transfer_baud opts)) @ '' baud'',
      frame = baud_commit_frame reload, expect = Echo, timeout_ms = reply_timeout_ms opts,
      retune_before_send = Some (handshake_baud opts),
      retune_after_send = Some (transfer_baud opts), write_addr = None\<rparr>"

definition link_test_step :: "target_info \<Rightarrow> session_options \<Rightarrow> nat \<Rightarrow> step" where
  "link_test_step info opts i =
     \<lparr>phase = LinkTest,
      label = ''link test '' @ fmt_dec (i + 1) @ ''/'' @ fmt_dec LINK_TEST_REPEATS,
      frame = link_test_frame (chip_id info), expect = Ack REPLY_ACK LINK_TEST_ACK_PAYLOAD,
      timeout_ms = reply_timeout_ms opts,
      retune_before_send = None, retune_after_send = None, write_addr = None\<rparr>"

text \<open>
  The \<open>match job\<close> that computes the number of 256-byte blocks to erase; its first arm,
  \<open>unreachable!()\<close>, is \<open>None\<close>: \<open>plan\<close> has returned by then, and \<open>erase_blocks_total\<close>
  shows that its own \<open>None\<close> arm is never taken.
\<close>

definition erase_blocks :: "target_info \<Rightarrow> job \<Rightarrow> (protocol_error + nat) option" where
  "erase_blocks info job =
     (case job of
        Identify \<Rightarrow> None
      | EraseJob (Some n) \<Rightarrow> Some (Inr (unat n))
      | EraseJob None \<Rightarrow>
          Some (case code_flash info of
                  None \<Rightarrow> Inl (UnknownChipSize (chip_id info))
                | Some cap \<Rightarrow> Inr (cap div ERASE_BLOCK))
      | FlashJob img _ \<Rightarrow>
          Some (if img = [] then Inl EmptyImage
                else case code_flash info of
                       Some cap \<Rightarrow>
                         if cap < length img then Inl (ImageTooLarge (length img) cap)
                         else Inr (erase_blocks_for (length img))
                     | None \<Rightarrow> Inr (erase_blocks_for (length img))))"

definition erase_step :: "session_options \<Rightarrow> nat \<Rightarrow> step" where
  "erase_step opts blocks =
     \<lparr>phase = Erase,
      label = ''erase '' @ fmt_dec blocks @ '' blocks ('' @ fmt_dec (blocks * ERASE_BLOCK) @ '' bytes)'',
      frame = erase_frame (of_nat blocks), expect = AckLen REPLY_ACK ERASE_REPLY_LEN,
      timeout_ms = erase_timeout_ms opts,
      retune_before_send = None, retune_after_send = None, write_addr = None\<rparr>"

definition write_step :: "session_options \<Rightarrow> nat \<Rightarrow> nat \<Rightarrow> u8 list \<Rightarrow> step" where
  "write_step opts n_blocks i chunk =
     (let addr = of_nat (i * WRITE_BLOCK) :: u32
      in \<lparr>phase = Write,
          label = ''write block '' @ fmt_dec (i + 1) @ ''/'' @ fmt_dec n_blocks @ '' at 0x''
            @ fmt_hex 4 (unat addr),
          frame = write_frame addr chunk, expect = BlockAck (block_ack chunk),
          timeout_ms = reply_timeout_ms opts,
          retune_before_send = None, retune_after_send = None, write_addr = Some addr\<rparr>)"

definition write_steps :: "session_options \<Rightarrow> u8 list \<Rightarrow> nat \<Rightarrow> step list" where
  "write_steps opts img blocks =
     (let region = blocks * ERASE_BLOCK;
          padded = resize region 0xFF img;
          total_blocks = region div WRITE_BLOCK
      in map (\<lambda>(i, chunk). write_step opts total_blocks i chunk)
           (enumerate 0 (slice_chunks WRITE_BLOCK padded)))"

definition options_step :: "target_info \<Rightarrow> session_options \<Rightarrow> step" where
  "options_step info opts =
     \<lparr>phase = Options, label = ''options (echoing the byte we read)'',
      frame = options_frame info, expect = Echo, timeout_ms = reply_timeout_ms opts,
      retune_before_send = None, retune_after_send = None, write_addr = None\<rparr>"

definition run_step :: "session_options \<Rightarrow> step" where
  "run_step opts =
     \<lparr>phase = Run, label = ''run application'', frame = run_frame, expect = Nothing,
      timeout_ms = reply_timeout_ms opts,
      retune_before_send = None, retune_after_send = None, write_addr = None\<rparr>"

text \<open>The constant methods of the family.\<close>

definition stc89_name :: string where "stc89_name = ''stc89''"
definition stc89_default_handshake_baud :: u32 where "stc89_default_handshake_baud = 2400"
definition stc89_default_transfer_baud :: u32 where "stc89_default_transfer_baud = 115200"

definition plan :: "target_info \<Rightarrow> job \<Rightarrow> session_options \<Rightarrow> protocol_error + step list" where
  "plan info job opts =
     (if job = Identify then Inr [run_step opts]
      else case timer_reload (measured_hz info) (transfer_baud opts) of
        Inl e \<Rightarrow> Inl e
      | Inr reload \<Rightarrow>
          let steps = [baud_probe_step opts reload, baud_commit_step opts reload]
                @ map (link_test_step info opts) [0..<LINK_TEST_REPEATS]
          in case erase_blocks info job of
               None \<Rightarrow> Inr []
             | Some (Inl e) \<Rightarrow> Inl e
             | Some (Inr blocks) \<Rightarrow>
                 if blocks = 0 \<or> 0xFF < blocks then Inl (EraseTooLarge blocks)
                 else let steps = steps @ [erase_step opts blocks];
                          steps = (case job of
                             FlashJob img write_options \<Rightarrow>
                               steps @ write_steps opts img blocks
                               @ (if write_options then [options_step info opts] else [])
                           | _ \<Rightarrow> steps)
                      in Inr (steps @ [run_step opts]))"

lemma erase_blocks_total: "job \<noteq> Identify \<Longrightarrow> erase_blocks info job \<noteq> None"
  by (cases job) (auto simp: erase_blocks_def split: option.splits)

lemmas step_builders = baud_probe_step_def baud_commit_step_def link_test_step_def erase_step_def
  options_step_def run_step_def

end
