(* ===== verification/Stc89_Facts.thy ===== *)
theory Stc89_Facts imports Stc89 begin

text \<open>
  What the arithmetic, the frames and the status parser of the STC89 family
  compute. The word arithmetic of the code is compared with exact arithmetic on
  the naturals, so each result also says that nothing wrapped.
\<close>

section \<open>Arithmetic\<close>

lemma unat_ucast_wide [word_unat_simps]:
  "unat (ucast (w :: u16) :: u64) = unat w" "unat (ucast (b :: u32) :: u64) = unat b"
  by (simp_all add: unsigned_ucast_eq take_bit_nat_eq_self less_trans [OF unat_u16_less]
      less_trans [OF unat_u32_less])

lemma unat_frequency_hz: "unat (frequency_hz w b) = unat w * unat b * 12 div 7"
proof -
  have "unat w * unat b \<le> 65535 * 4294967295"
    using unat_u16_less [of w] unat_u32_less [of b] by (intro mult_mono) linarith+
  then have "unat w * unat b < 18446744073709551616"
    and "unat w * unat b * 12 < 18446744073709551616" by linarith+
  then have "unat w * unat b mod 18446744073709551616 = unat w * unat b"
    and "unat w * unat b * 12 mod 18446744073709551616 = unat w * unat b * 12"
    by (simp_all only: mod_less)
  then show ?thesis
    by (simp only: frequency_hz_def FREQ_NUM_def FREQ_DEN_def unat_div unat_word_ariths
        word_unat_simps) simp
qed

definition ticks_of :: "u64 \<Rightarrow> u32 \<Rightarrow> nat" where
  "ticks_of f b = (unat f + 16 * unat b) div (32 * unat b)"

lemma timer_reload_ticks:
  assumes "unat f < 2 ^ 63" and "b \<noteq> 0"
  shows "timer_reload f b =
    (if 1 \<le> ticks_of f b \<and> ticks_of f b \<le> 255 then Inr (of_int (256 - int (ticks_of f b)))
     else Inl (UnreachableBaud b (256 - int (ticks_of f b))))"
proof -
  let ?d = "ucast b * 32 :: u64"
  have b0: "0 < unat b" using assms(2) by (simp add: unat_gt_0)
  have b1: "unat b < 2 ^ 32" by simp
  have "unat b * 32 < 18446744073709551616" using unat_u32_less [of b] by linarith
  then have d: "unat ?d = 32 * unat b"
    by (simp add: unat_word_ariths word_unat_simps)
  have h: "unat (?d div 2) = 16 * unat b" by (simp add: unat_div d)
  have "unat f < 9223372036854775808" using assms(1) by simp
  then have "unat f + 16 * unat b < 18446744073709551616"
    using unat_u32_less [of b] by linarith
  then have s: "unat (f + ?d div 2) = unat f + 16 * unat b"
    by (subst unat_word_ariths(1), subst h, intro mod_less) simp
  have t: "unat ((f + ?d div 2) div ?d) = ticks_of f b"
    by (simp add: unat_div s d ticks_of_def)
  have "ticks_of f b \<le> unat f + 16 * unat b"
    unfolding ticks_of_def by (rule div_le_dividend)
  moreover have "ticks_of f b \<le> (unat f + 16 * unat b) div 32"
    unfolding ticks_of_def using b0 by (intro div_le_mono2) auto
  moreover have "(unat f + 16 * unat b) div 32 < 9223372036854775808"
    using \<open>unat f + 16 * unat b < 18446744073709551616\<close> by linarith
  ultimately have "ticks_of f b < 2 ^ 63" by simp
  then have i: "sint ((f + ?d div 2) div ?d) = int (ticks_of f b)"
    by (simp add: sint_uint uint_nat t signed_take_bit_int_eq_self)
  have "?d \<noteq> 0" using d b0 by (metis mult_is_0 neq0_conv unat_0 zero_neq_numeral)
  then show ?thesis by (auto simp: timer_reload_def Let_def i)
qed

lemma ticks_of_eq_iff:
  assumes "b \<noteq> 0" and "0 < t"
  shows "ticks_of f b = t \<longleftrightarrow>
    (2 * t - 1) * (16 * unat b) \<le> unat f \<and> unat f < (2 * t + 1) * (16 * unat b)"
proof -
  have b0: "0 < 32 * unat b" using assms(1) by (simp add: unat_gt_0)
  have "ticks_of f b = t \<longleftrightarrow> t * (32 * unat b) \<le> unat f + 16 * unat b
      \<and> unat f + 16 * unat b < Suc t * (32 * unat b)"
    unfolding ticks_of_def using b0
    by (metis div_nat_eqI dividend_less_div_times mult.commute mult_Suc times_div_less_eq_dividend)
  moreover have "(2 * t - 1) * (16 * unat b) = t * (32 * unat b) - 16 * unat b"
    by (simp add: diff_mult_distrib)
  moreover have "16 * unat b \<le> t * (32 * unat b)" using assms(2) by (cases t) auto
  moreover have "Suc t * (32 * unat b) = (2 * t + 1) * (16 * unat b) + 16 * unat b"
    by (simp add: algebra_simps)
  ultimately show ?thesis by linarith
qed

lemma uint_of_int_u8: "0 \<le> k \<Longrightarrow> k \<le> 255 \<Longrightarrow> uint (of_int k :: u8) = k"
  by (simp add: uint_word_of_int)

lemma unat_of_int_u8: "n \<le> 255 \<Longrightarrow> unat (of_int (int n) :: u8) = n"
  by (simp add: unsigned_of_nat take_bit_nat_eq_self)

lemma reload_word: "1 \<le> t \<Longrightarrow> t \<le> 256 \<Longrightarrow> of_int (256 - int t) = (r :: u8) \<longleftrightarrow> t = 256 - unat r"
proof -
  assume "1 \<le> t" and "t \<le> 256"
  then have "256 - int t = int (256 - t)" and "256 - t \<le> 255" by linarith+
  then have "unat (of_int (256 - int t) :: u8) = 256 - t" using unat_of_int_u8 by metis
  moreover have "unat r < 256" by simp
  ultimately show ?thesis using \<open>t \<le> 256\<close> by (metis diff_diff_cancel less_imp_le word_unat_eq_iff)
qed

text \<open>
  C22: The timer reload the host negotiates is the nearest one. For every oscillator
  frequency below 2^63 Hz, \<open>timer_reload\<close> returns r exactly when r is not 0 and
  the 256 - r timer ticks are the correctly rounded quotient of the frequency by 32 times the
  baud rate, the half rounding up; in particular no intermediate product wraps,
  and baud 0 is always refused.
\<close>

theorem timer_reload_is_nearest:
  assumes "unat f < 2 ^ 63"
  shows "timer_reload f b = Inr r \<longleftrightarrow>
    b \<noteq> 0 \<and> r \<noteq> 0 \<and>
    (2 * (256 - unat r) - 1) * (16 * unat b) \<le> unat f \<and>
    unat f < (2 * (256 - unat r) + 1) * (16 * unat b)"
proof (cases "b = 0")
  case True
  then show ?thesis by (simp add: timer_reload_def)
next
  case False
  let ?t = "256 - unat r" and ?n = "ticks_of f b"
  have u: "unat r < 256" by simp
  then have t: "0 < ?t" by simp
  have "r = 0 \<longleftrightarrow> unat r = 0" by (simp add: unat_eq_0)
  with u have r0: "r \<noteq> 0 \<longleftrightarrow> ?t \<le> 255" by linarith
  have "timer_reload f b = Inr r \<longleftrightarrow> 1 \<le> ?n \<and> ?n \<le> 255 \<and> of_int (256 - int ?n) = r"
    using timer_reload_ticks [OF assms False] by auto
  also have "\<dots> \<longleftrightarrow> 1 \<le> ?n \<and> ?n \<le> 255 \<and> ?n = ?t"
    by (intro conj_cong refl reload_word) simp_all
  also have "\<dots> \<longleftrightarrow> ?n = ?t \<and> ?t \<le> 255" using t by linarith
  finally show ?thesis using False r0 ticks_of_eq_iff [OF False t] by auto
qed

theorem timer_reload_is_nearest_witness:
  "timer_reload 10972800 115200 = Inr 0xFD"
  by (subst timer_reload_is_nearest) simp_all

lemma from_be16_to_be16: "to_be16 (from_be16 a b) = [a, b]"
  by (simp add: to_be16_def)

lemma reload_field_eq: "reload_field r = [0xFF, r]"
proof -
  have "(of_int (0x10000 - (256 - uint r)) :: u16) = from_be16 0xFF r"
  proof (rule word_unat_eq_iff [THEN iffD2])
    have "0x10000 - (256 - uint r) = int (65280 + unat r)" by simp
    then have "(of_int (0x10000 - (256 - uint r)) :: u16) = of_nat (65280 + unat r)"
      by (metis of_int_of_nat_eq)
    moreover have "65280 + unat r < 65536" using unat_u8_less [of r] by linarith
    ultimately show "unat (of_int (0x10000 - (256 - uint r)) :: u16) = unat (from_be16 0xFF r)"
      by (simp only: unat_of_nat_u16 unat_from_be16) simp
  qed
  then show ?thesis by (simp only: reload_field_def from_be16_to_be16)
qed

text \<open>The number of blocks to erase for an image.\<close>

lemma erase_blocks_for_eq: "erase_blocks_for n = 2 * ((n + 511) div 512)"
proof -
  define q r where "q = n div 512" and "r = n mod 512"
  then have n: "n = 512 * q + r" and r: "r < 512" by simp_all
  have "(n + 511) div 512 = (if r = 0 then q else q + 1)"
    unfolding n by (rule div_nat_eqI; use r in simp; cases r; simp)
  then show ?thesis
    by (simp add: erase_blocks_for_def div_ceil_def ERASE_GRANULE_def q_def r_def)
qed

text \<open>
  \<open>erase_blocks_for\<close> is the least erase that covers the image. The number of
  256-byte blocks it returns is even, covers every byte of the image, and no
  smaller even number of blocks does.
\<close>

lemma erase_covers_least:
  "erase_blocks_for n = (LEAST k. even k \<and> n \<le> k * ERASE_BLOCK)"
proof (rule Least_equality [symmetric])
  show "even (erase_blocks_for n) \<and> n \<le> erase_blocks_for n * ERASE_BLOCK"
    by (simp add: erase_blocks_for_eq ERASE_BLOCK_def)
next
  fix k
  assume "even k \<and> n \<le> k * ERASE_BLOCK"
  then obtain m where "k = 2 * m" and "n \<le> 512 * m" by (auto simp: ERASE_BLOCK_def elim!: evenE)
  then show "erase_blocks_for n \<le> k" by (simp add: erase_blocks_for_eq)
qed

lemma erase_blocks_for_pos: "0 < n \<Longrightarrow> 0 < erase_blocks_for n"
  by (simp add: erase_blocks_for_eq div_greater_zero_iff)

section \<open>Frames\<close>

lemma foldl_add_word: "foldl (+) (a :: u8) xs = a + sum_list xs"
  by (induction xs arbitrary: a) (simp_all add: add.assoc)

lemma block_ack_sum: "block_ack xs = sum_list xs"
  by (simp add: block_ack_def foldl_add_word)

lemma unat_sum_list: "unat (sum_list (xs :: u8 list)) = sum_list (map unat xs) mod 256"
  by (induction xs) (simp_all add: unat_word_ariths mod_add_right_eq)

text \<open>
  The acknowledgement the host waits for after a block is the low byte of the
  exact sum of the data bytes.
\<close>

lemma block_ack_is_low_byte: "unat (block_ack xs) = sum_list (map unat xs) mod 256"
  by (simp add: block_ack_sum unat_sum_list)

end
