(* ===== verification/Stc89_Plan.thy ===== *)
theory Stc89_Plan imports Stc89_Facts begin

text \<open>
  What a plan of the STC89 family contains: its layout, the interpretation of
  the interface \<open>protocol_family\<close>, the bytes its write frames program, the option byte
  it echoes, the line rate every frame travels at and the errors a plan is
  refused with.
\<close>

section \<open>Layout\<close>

definition prologue :: "target_info \<Rightarrow> session_options \<Rightarrow> u8 \<Rightarrow> step list" where
  "prologue info opts reload = [baud_probe_step opts reload, baud_commit_step opts reload]
     @ map (link_test_step info opts) [0..<LINK_TEST_REPEATS]"

definition flash_steps :: "target_info \<Rightarrow> session_options \<Rightarrow> nat \<Rightarrow> job \<Rightarrow> step list" where
  "flash_steps info opts blocks job =
     (case job of
        FlashJob img wo \<Rightarrow>
          write_steps opts img blocks @ (if wo then [options_step info opts] else [])
      | _ \<Rightarrow> [])"

lemma flash_steps_simps [simp]:
  "flash_steps info opts n Identify = []"
  "flash_steps info opts n (EraseJob k) = []"
  "flash_steps info opts n (FlashJob img wo) =
     write_steps opts img n @ (if wo then [options_step info opts] else [])"
  by (simp_all add: flash_steps_def)

lemma plan_Identify [simp]: "plan info Identify opts = Inr [run_step opts]"
  by (simp add: plan_def)

lemma plan_work:
  assumes "job \<noteq> Identify"
  shows "plan info job opts = Inr sts \<longleftrightarrow>
    (\<exists>reload n. timer_reload (measured_hz info) (transfer_baud opts) = Inr reload
      \<and> erase_blocks info job = Some (Inr n) \<and> 0 < n \<and> n \<le> 0xFF
      \<and> sts = prologue info opts reload @ erase_step opts n # flash_steps info opts n job
          @ [run_step opts])"
proof -
  from erase_blocks_total [OF assms, of info] obtain y where "erase_blocks info job = Some y" by blast
  with assms show ?thesis
    by (auto simp: plan_def Let_def prologue_def flash_steps_def split: sum.splits job.splits)
qed

lemma plan_work_error:
  assumes "job \<noteq> Identify"
  shows "plan info job opts = Inl e \<longleftrightarrow>
    (case timer_reload (measured_hz info) (transfer_baud opts) of
       Inl e' \<Rightarrow> e' = e
     | Inr _ \<Rightarrow> erase_blocks info job = Some (Inl e)
         \<or> (\<exists>n. erase_blocks info job = Some (Inr n) \<and> (n = 0 \<or> 0xFF < n) \<and> e = EraseTooLarge n))"
proof -
  from erase_blocks_total [OF assms, of info] obtain y where "erase_blocks info job = Some y" by blast
  with assms show ?thesis by (auto simp: plan_def Let_def split: sum.splits)
qed

lemma plan_cases:
  assumes "plan info job opts = Inr sts"
  obtains "job = Identify" and "sts = [run_step opts]"
  | reload n where "job \<noteq> Identify"
      and "timer_reload (measured_hz info) (transfer_baud opts) = Inr reload"
      and "erase_blocks info job = Some (Inr n)" and "0 < n" and "n \<le> 255"
      and "sts = prologue info opts reload @ erase_step opts n # flash_steps info opts n job
          @ [run_step opts]"
  using assms by (cases "job = Identify") (auto simp: plan_work)

text \<open>The fields of the steps a plan is built from.\<close>

lemma in_prologue:
  "st \<in> set (prologue info opts reload) \<Longrightarrow>
     st = baud_probe_step opts reload \<or> st = baud_commit_step opts reload
     \<or> (\<exists>i. st = link_test_step info opts i)"
  by (auto simp: prologue_def)

lemma in_flash_steps:
  "st \<in> set (flash_steps info opts n job) \<Longrightarrow>
     (\<exists>k i c. st = write_step opts k i c) \<or> st = options_step info opts"
  by (cases job) (auto simp: write_steps_def Let_def split: if_splits)

lemma step_phase [simp]:
  "phase (baud_probe_step opts r) = BaudProbe" "phase (baud_commit_step opts r) = BaudCommit"
  "phase (link_test_step info opts i) = LinkTest" "phase (erase_step opts n) = Erase"
  "phase (write_step opts k i c) = Write" "phase (options_step info opts) = Options"
  "phase (run_step opts) = Run"
  by (simp_all add: step_builders write_step_def Let_def)

lemma step_expect [simp]:
  "expect (baud_probe_step opts r) = Echo" "expect (baud_commit_step opts r) = Echo"
  "expect (link_test_step info opts i) = Ack REPLY_ACK []"
  "expect (erase_step opts n) = AckLen REPLY_ACK 7"
  "expect (write_step opts k i c) = BlockAck (block_ack c)" "expect (options_step info opts) = Echo"
  "expect (run_step opts) = Nothing"
  by (simp_all add: step_builders write_step_def Let_def LINK_TEST_ACK_PAYLOAD_def ERASE_REPLY_LEN_def)

lemma step_frame [simp]:
  "frame (baud_probe_step opts r) = baud_probe_frame r"
  "frame (baud_commit_step opts r) = baud_commit_frame r"
  "frame (link_test_step info opts i) = link_test_frame (chip_id info)"
  "frame (erase_step opts n) = erase_frame (of_nat n)"
  "frame (write_step opts k i c) = write_frame (of_nat (i * WRITE_BLOCK)) c"
  "frame (options_step info opts) = options_frame info" "frame (run_step opts) = run_frame"
  by (simp_all add: step_builders write_step_def Let_def)

lemmas frame_builders = baud_probe_frame_def baud_commit_frame_def link_test_frame_def
  erase_frame_def write_frame_def options_frame_def run_frame_def

lemma frame_host_sel [simp]:
  "dir (frame_host c p) = HostToMcu" "cmd (frame_host c p) = c" "payload (frame_host c p) = p"
  by (simp_all add: frame_host_def)

lemma planned_dir [simp]:
  "dir (baud_probe_frame r) = HostToMcu" "dir (baud_commit_frame r) = HostToMcu"
  "dir (link_test_frame ch) = HostToMcu" "dir (erase_frame b) = HostToMcu"
  "dir (write_frame a c) = HostToMcu" "dir (options_frame info) = HostToMcu"
  "dir run_frame = HostToMcu"
  by (simp_all add: frame_builders)

lemma plan_layout:
  assumes "plan info job opts = Inr sts"
  obtains pre where "sts = pre @ [run_step opts]"
    and "\<forall>t \<in> set pre. expect t \<noteq> Nothing \<and> phase t \<noteq> Run \<and> dir (frame t) = HostToMcu"
    and "sorted (map phase sts)"
  using assms
proof (cases rule: plan_cases)
  case 1
  then show ?thesis using that [of "[]"] by simp
next
  case (2 reload n)
  let ?pre = "prologue info opts reload @ erase_step opts n # flash_steps info opts n job"
  have "\<forall>t \<in> set ?pre. expect t \<noteq> Nothing \<and> phase t \<noteq> Run \<and> dir (frame t) = HostToMcu"
    by (auto dest!: in_prologue in_flash_steps)
  moreover have "sorted (map phase (prologue info opts reload @ [erase_step opts n]))"
    by (simp add: prologue_def LINK_TEST_REPEATS_def upt_rec less_eq_phase_def)
  moreover have "sorted (map phase (flash_steps info opts n job @ [run_step opts]))"
    by (cases job) (auto simp: write_steps_def Let_def sorted_append comp_def less_eq_phase_def
        sorted_map sorted_wrt_map split_def)
  moreover have "\<forall>s \<in> set (prologue info opts reload @ [erase_step opts n]). phase s \<le> Erase"
    and "\<forall>t \<in> set (flash_steps info opts n job @ [run_step opts]). Erase \<le> phase t"
    by (auto simp: less_eq_phase_def dest!: in_prologue in_flash_steps)
  ultimately have "sorted (map phase ((prologue info opts reload @ [erase_step opts n])
      @ (flash_steps info opts n job @ [run_step opts])))"
    by (simp only: map_append sorted_append) (force intro: order_trans)
  with \<open>\<forall>t \<in> set ?pre. _ t\<close> show ?thesis using 2 that [of ?pre] by simp
qed

section \<open>The interface\<close>

lemma is_status_of_parse: "parse_status f b = Inr info \<Longrightarrow> is_status_frame f"
  by (auto simp: parse_status_def is_status_frame_def stc89_layout Let_def split: if_splits)

interpretation stc89_family: protocol_family is_status_frame parse_status plan
proof unfold_locales
  fix f b info
  show "parse_status f b = Inr info \<Longrightarrow> is_status_frame f" by (rule is_status_of_parse)
next
  fix f
  show "is_status_frame f \<Longrightarrow> dir f = McuToHost" by (simp add: is_status_frame_def)
next
  fix info job opts sts st
  assume "plan info job opts = Inr sts" and "st \<in> set sts"
  then show "dir (frame st) = HostToMcu" by (auto elim!: plan_layout)
next
  fix info job opts sts
  assume a: "plan info job opts = Inr sts"
  then show "sorted (map phase sts)" by (auto elim!: plan_layout)
  from a show "\<exists>pre st. sts = pre @ [st] \<and> phase st = Run \<and> expect st = Nothing \<and>
      (\<forall>t \<in> set pre. expect t \<noteq> Nothing \<and> phase t \<noteq> Run)"
    by (rule plan_layout) (metis step_phase(7) step_expect(7))
qed

end
