(* ===== verification/Ihex.thy ===== *)
theory Ihex imports Rust_Text begin

text \<open>
  The Intel HEX reader of \<open>src/src/ihex.rs\<close>. \<open>parse\<close> walks the lines of the text
  with the memory image, the segment base, the lowest address and the flag for data as
  its state; \<open>hex_record\<close> is what it does to one trimmed line up to the checksum,
  \<open>hex_apply\<close> its \<open>match\<close> on the record type, \<open>hex_lines\<close> the loop with its \<open>break\<close>.
  The reason of a bad record is a value instead of the text rendered from it.
\<close>

section \<open>Data\<close>

record image =
  bytes :: "u8 list"
  lowest_addr :: u32
  gap_bytes :: nat

datatype bad_record =
    NoStartCode string
  | TruncatedRecord
  | NonHexCharacter u8
  | CountDisagrees nat nat
  | BadType02Length
  | BadType04Length
  | UnsupportedType u8

datatype hex_error =
    HexEmpty
  | HexNoData
  | HexBadRecord nat bad_record
  | HexBadChecksum nat u8 u8
  | HexAddressTooHigh nat u32

record hex_state =
  mem :: "u8 option list"
  base :: u32
  lowest :: u32
  saw_data :: bool

section \<open>Digits\<close>

definition nibble :: "u8 \<Rightarrow> bad_record + u8" where
  "nibble c =
     (if 0x30 \<le> c \<and> c \<le> 0x39 then Inr (c - 0x30)
      else if 0x61 \<le> c \<and> c \<le> 0x66 then Inr (c - 0x61 + 10)
      else if 0x41 \<le> c \<and> c \<le> 0x46 then Inr (c - 0x41 + 10)
      else Inl (NonHexCharacter c))"

fun decode_hex :: "u8 list \<Rightarrow> bad_record + u8 list" where
  "decode_hex (a # b # rest) =
     (case nibble a of
        Inl e \<Rightarrow> Inl e
      | Inr hi \<Rightarrow>
          (case nibble b of
             Inl e \<Rightarrow> Inl e
           | Inr lo \<Rightarrow>
               (case decode_hex rest of
                  Inl e \<Rightarrow> Inl e
                | Inr out \<Rightarrow> Inr ((push_bit 4 hi OR lo) # out))))"
| "decode_hex _ = Inr []"

section \<open>Records\<close>

definition str_bytes :: "string \<Rightarrow> u8 list" where
  "str_bytes s = map of_char s"

definition hex_record :: "nat \<Rightarrow> string \<Rightarrow> hex_error + u8 list" where
  "hex_record line s =
     (case s of
        [] \<Rightarrow> Inl (HexBadRecord line (NoStartCode s))
      | c # body \<Rightarrow>
          if c \<noteq> CHR '':'' then Inl (HexBadRecord line (NoStartCode s))
          else if length body < 10 \<or> length body mod 2 \<noteq> 0 then Inl (HexBadRecord line TruncatedRecord)
          else (case decode_hex (str_bytes body) of
             Inl why \<Rightarrow> Inl (HexBadRecord line why)
           | Inr bs \<Rightarrow>
               let count = unat (bs ! 0)
               in if length bs \<noteq> count + 5
                  then Inl (HexBadRecord line (CountDisagrees count (length bs)))
                  else let sum = foldl (+) 0 bs
                       in if sum \<noteq> 0 then Inl (HexBadChecksum line (last bs - sum) (last bs))
                          else Inr bs))"

text \<open>The bytes of a data record go into the image one by one: \<open>mem[addr + i] = Some(b)\<close>.\<close>

definition store_bytes :: "nat \<Rightarrow> u8 list \<Rightarrow> u8 option list \<Rightarrow> u8 option list" where
  "store_bytes addr data m = fold (\<lambda>(i, b) m. m[addr + i := Some b]) (enumerate 0 data) m"

text \<open>The \<open>match\<close> on the record type; \<open>Inr None\<close> is its \<open>break\<close>.\<close>

definition hex_apply :: "nat \<Rightarrow> u8 list \<Rightarrow> hex_state \<Rightarrow> hex_error + hex_state option" where
  "hex_apply line bs st =
     (let count = unat (bs ! 0);
          offset = ucast (from_be16 (bs ! 1) (bs ! 2)) :: u32;
          rtype = bs ! 3;
          data = take count (drop 4 bs)
      in if rtype = 0x00 then
           (let addr = base st + offset;
                top = unat addr + count
            in if 0x10000 < top then Inl (HexAddressTooHigh line addr)
               else let m = (if length (mem st) < top then resize top None (mem st) else mem st)
                    in Inr (Some (st\<lparr>mem := store_bytes (unat addr) data m,
                                      lowest := min (lowest st) addr, saw_data := True\<rparr>)))
         else if rtype = 0x01 then Inr None
         else if rtype = 0x02 then
           (if count \<noteq> 2 then Inl (HexBadRecord line BadType02Length)
            else Inr (Some (st\<lparr>base := push_bit 4 (ucast (from_be16 (data ! 0) (data ! 1)))\<rparr>)))
         else if rtype = 0x04 then
           (if count \<noteq> 2 then Inl (HexBadRecord line BadType04Length)
            else let upper = ucast (from_be16 (data ! 0) (data ! 1)) :: u32
                 in if upper \<noteq> 0 then Inl (HexAddressTooHigh line (push_bit 16 upper))
                    else Inr (Some (st\<lparr>base := 0\<rparr>)))
         else if rtype = 0x03 \<or> rtype = 0x05 then Inr (Some st)
         else Inl (HexBadRecord line (UnsupportedType rtype)))"

section \<open>The loop\<close>

fun hex_lines :: "nat \<Rightarrow> string list \<Rightarrow> hex_state \<Rightarrow> hex_error + hex_state" where
  "hex_lines idx [] st = Inr st"
| "hex_lines idx (raw # rest) st =
     (let line = idx + 1;
          s = trim raw
      in if s = [] then hex_lines line rest st
         else (case hex_record line s of
            Inl e \<Rightarrow> Inl e
          | Inr bs \<Rightarrow>
              (case hex_apply line bs st of
                 Inl e \<Rightarrow> Inl e
               | Inr None \<Rightarrow> Inr st
               | Inr (Some st') \<Rightarrow> hex_lines line rest st')))"

definition hex_state_new :: hex_state where
  "hex_state_new = \<lparr>mem = [], base = 0, lowest = - 1, saw_data = False\<rparr>"

definition parse :: "string \<Rightarrow> hex_error + image" where
  "parse text =
     (if trim text = [] then Inl HexEmpty
      else case hex_lines 0 (lines text) hex_state_new of
        Inl e \<Rightarrow> Inl e
      | Inr st \<Rightarrow>
          if \<not> saw_data st \<or> mem st = [] then Inl HexNoData
          else Inr \<lparr>bytes = map (\<lambda>b. case b of Some x \<Rightarrow> x | None \<Rightarrow> 0x00) (mem st),
                    lowest_addr = lowest st,
                    gap_bytes = length (filter (\<lambda>b. b = None) (mem st))\<rparr>)"

section \<open>The memory image\<close>

text \<open>
  The memory as a map from addresses, whatever the length of the vector, and what
  a list of blocks leaves there, the later block winning.
\<close>

definition mem_at :: "u8 option list \<Rightarrow> nat \<Rightarrow> u8 option" where
  "mem_at m a = (if a < length m then m ! a else None)"

definition overlay :: "nat \<Rightarrow> u8 list \<Rightarrow> (nat \<Rightarrow> u8 option) \<Rightarrow> nat \<Rightarrow> u8 option" where
  "overlay addr data f a =
     (if addr \<le> a \<and> a < addr + length data then Some (data ! (a - addr)) else f a)"

lemma length_store_gen [simp]:
  "length (fold (\<lambda>(i, b) m. m[addr + i := Some b]) ibs m) = length m"
  by (induction ibs arbitrary: m) auto

lemma nth_store_gen:
  assumes "addr + k + length data \<le> length m"
  shows "fold (\<lambda>(i, b) m. m[addr + i := Some b]) (enumerate k data) m ! a =
      (if addr + k \<le> a \<and> a < addr + k + length data then Some (data ! (a - (addr + k))) else m ! a)"
  using assms
proof (induction data arbitrary: k m)
  case (Cons b data)
  then have IH: "fold (\<lambda>(i, b) m. m[addr + i := Some b]) (enumerate (Suc k) data) (m[addr + k := Some b]) ! a =
      (if addr + Suc k \<le> a \<and> a < addr + Suc k + length data then Some (data ! (a - (addr + Suc k)))
       else m[addr + k := Some b] ! a)"
    by (intro Cons.IH) simp
  consider "a < addr + k" | "a = addr + k" | "addr + Suc k \<le> a" by linarith
  then show ?case using Cons.prems IH by cases (auto simp: nth_Cons')
qed auto

lemma store_bytes:
  assumes "addr + length data \<le> length m"
  shows "length (store_bytes addr data m) = length m"
    and "mem_at (store_bytes addr data m) = overlay addr data (mem_at m)"
  using nth_store_gen [of addr 0 data m] assms
  by (auto simp: store_bytes_def mem_at_def overlay_def fun_eq_iff)

definition grow :: "nat \<Rightarrow> u8 option list \<Rightarrow> u8 option list" where
  "grow n m = (if length m < n then resize n None m else m)"

lemma length_grow [simp]: "length (grow n m) = max (length m) n"
  by (simp add: grow_def)

lemma mem_at_grow [simp]: "mem_at (grow n m) = mem_at m"
  by (auto simp: grow_def mem_at_def resize_def nth_append fun_eq_iff)

text \<open>A data record, on the map.\<close>

lemma hex_apply_data:
  assumes "bs ! 3 = 0" and "4 + unat (bs ! 0) \<le> length bs"
    and "hex_apply line bs st = Inr (Some st')"
  defines "addr \<equiv> base st + ucast (from_be16 (bs ! 1) (bs ! 2))"
    and "data \<equiv> take (unat (bs ! 0)) (drop 4 bs)"
  shows "unat addr + length data \<le> 65536"
    and "mem_at (mem st') = overlay (unat addr) data (mem_at (mem st))"
    and "length (mem st') = max (length (mem st)) (unat addr + length data)"
    and "lowest st' = min (lowest st) addr" and "saw_data st'" and "base st' = base st"
proof -
  have l: "unat (bs ! 0) = length data" using assms(2) by (simp add: data_def)
  have t: "take (length data) (drop 4 bs) = data" by (simp add: data_def l [unfolded data_def, symmetric] del: length_take)
  have a: "hex_apply line bs st =
      (if 0x10000 < unat addr + length data then Inl (HexAddressTooHigh line addr)
       else Inr (Some (st\<lparr>mem := store_bytes (unat addr) data (grow (unat addr + length data) (mem st)),
         lowest := min (lowest st) addr, saw_data := True\<rparr>)))"
    unfolding hex_apply_def Let_def assms(1) addr_def [symmetric] data_def [symmetric] l grow_def t
    by simp
  then show "unat addr + length data \<le> 65536" using assms(3) by (simp split: if_splits)
  have "st' = st\<lparr>mem := store_bytes (unat addr) data (grow (unat addr + length data) (mem st)),
      lowest := min (lowest st) addr, saw_data := True\<rparr>"
    using assms(3) unfolding a by (simp split: if_splits)
  then show "mem_at (mem st') = overlay (unat addr) data (mem_at (mem st))"
    "length (mem st') = max (length (mem st)) (unat addr + length data)"
    "lowest st' = min (lowest st) addr" "saw_data st'" "base st' = base st"
    by (simp_all add: store_bytes)
qed

section \<open>The invariant of the loop\<close>

definition hex_inv :: "hex_state \<Rightarrow> bool" where
  "hex_inv st \<longleftrightarrow> length (mem st) \<le> 65536 \<and>
     (if saw_data st
      then unat (lowest st) \<le> length (mem st) \<and> (\<forall>a < unat (lowest st). mem_at (mem st) a = None)
      else mem st = [] \<and> lowest st = - 1)"

lemma hex_inv_new [simp]: "hex_inv hex_state_new"
  by (simp add: hex_inv_def hex_state_new_def)

lemma hex_record_ok:
  "hex_record line s = Inr bs \<Longrightarrow> length bs = unat (bs ! 0) + 5 \<and> sum_list bs = 0"
proof -
  have "foldl (+) (a :: u8) xs = a + sum_list xs" for a xs
    by (induction xs arbitrary: a) (simp_all add: add.assoc)
  then show "hex_record line s = Inr bs \<Longrightarrow> length bs = unat (bs ! 0) + 5 \<and> sum_list bs = 0"
    by (auto simp: hex_record_def Let_def split: list.splits if_splits sum.splits)
qed

lemma hex_apply_other:
  "hex_apply line bs st = Inr (Some st') \<Longrightarrow> bs ! 3 \<noteq> 0 \<Longrightarrow>
     mem st' = mem st \<and> lowest st' = lowest st \<and> saw_data st' = saw_data st"
  by (auto simp: hex_apply_def Let_def split: if_splits)

lemma unat_min_word: "unat (min a b) = min (unat a) (unat (b :: u32))"
  by (simp add: min_def word_le_nat_alt)

lemma hex_inv_apply:
  assumes "hex_inv st" and "length bs = unat (bs ! 0) + 5" and "hex_apply line bs st = Inr (Some st')"
  shows "hex_inv st'"
proof (cases "bs ! 3 = 0")
  case False
  with hex_apply_other [OF assms(3)] assms(1) show ?thesis by (simp add: hex_inv_def)
next
  case True
  define addr where "addr = base st + ucast (from_be16 (bs ! 1) (bs ! 2))"
  define data where "data = take (unat (bs ! 0)) (drop 4 bs)"
  have l: "4 + unat (bs ! 0) \<le> length bs" using assms(2) by simp
  note d = hex_apply_data [OF True l assms(3), folded addr_def data_def]
  have low: "unat (lowest st') \<le> unat addr" using d(4) by (simp add: unat_min_word)
  have "mem_at (mem st) a = None" if "a < unat (lowest st')" for a
  proof (cases "saw_data st")
    case True
    with assms(1) that d(4) show ?thesis by (simp add: hex_inv_def unat_min_word)
  next
    case False
    with assms(1) show ?thesis by (simp add: hex_inv_def mem_at_def)
  qed
  with low d show ?thesis using assms(1) by (auto simp: hex_inv_def overlay_def)
qed

lemma hex_inv_lines: "hex_lines idx ls st = Inr st' \<Longrightarrow> hex_inv st \<Longrightarrow> hex_inv st'"
proof (induction idx ls st rule: hex_lines.induct)
  case (2 idx raw rest st)
  show ?case
  proof (cases "trim raw = []")
    case True
    with "2.prems" "2.IH"(1) show ?thesis by (simp add: Let_def)
  next
    case False
    with "2.prems"(1) obtain bs where bs: "hex_record (idx + 1) (trim raw) = Inr bs"
      by (auto simp: Let_def split: sum.splits)
    show ?thesis
    proof (cases "hex_apply (idx + 1) bs st")
      case (Inr r)
      show ?thesis
      proof (cases r)
        case None
        with Inr False bs "2.prems" show ?thesis by (simp add: Let_def)
      next
        case (Some st1)
        from hex_record_ok [OF bs] have "hex_inv st1"
          using hex_inv_apply [OF "2.prems"(2)] Inr Some by blast
        with Inr Some False bs "2.prems" "2.IH"(2) show ?thesis by (simp add: Let_def)
      qed
    qed (use False bs "2.prems" in \<open>simp add: Let_def\<close>)
  qed
qed simp

lemma filter_take_all: "\<forall>a < n. P (xs ! a) \<Longrightarrow> n \<le> length xs \<Longrightarrow> n \<le> length (filter P xs)"
proof -
  assume a: "\<forall>a < n. P (xs ! a)" and n: "n \<le> length xs"
  then have "filter P (take n xs) = take n xs" by (auto simp: filter_id_conv in_set_conv_nth)
  then have "length (filter P (take n xs)) = n" using n by simp
  moreover have "filter P xs = filter P (take n xs) @ filter P (drop n xs)"
    by (metis append_take_drop_id filter_append)
  ultimately show ?thesis by simp
qed

lemma parse_state:
  assumes "parse text = Inr img"
  obtains st where "hex_inv st" "saw_data st" "mem st \<noteq> []"
    and "bytes img = map (\<lambda>b. case b of Some x \<Rightarrow> x | None \<Rightarrow> 0) (mem st)"
    and "lowest_addr img = lowest st" and "gap_bytes img = length (filter (\<lambda>b. b = None) (mem st))"
  using assms hex_inv_lines [of 0 "lines text" hex_state_new]
  by (auto simp: parse_def split: if_splits sum.splits)

text \<open>
  C34: The bounds of a parsed image. Whatever the text, an image \<open>parse\<close> returns
  is not empty and at most 64 KiB long; no data record starts below its lowest
  address, so every byte below is a zero, and all of them are counted as gap bytes.
\<close>

theorem parsed_image_bounds:
  assumes "parse text = Inr img"
  shows "0 < length (bytes img) \<and> length (bytes img) \<le> 65536
    \<and> unat (lowest_addr img) \<le> gap_bytes img \<and> gap_bytes img \<le> length (bytes img)
    \<and> (\<forall>a < unat (lowest_addr img). bytes img ! a = 0)"
proof -
  from parse_state [OF assms] obtain st where inv: "hex_inv st" and s: "saw_data st" "mem st \<noteq> []"
    and i: "bytes img = map (\<lambda>b. case b of Some x \<Rightarrow> x | None \<Rightarrow> 0) (mem st)"
      "lowest_addr img = lowest st" "gap_bytes img = length (filter (\<lambda>b. b = None) (mem st))" .
  from inv s(1) have l: "unat (lowest st) \<le> length (mem st)" "length (mem st) \<le> 65536"
    and n: "\<forall>a < unat (lowest st). mem st ! a = None"
    by (auto simp: hex_inv_def mem_at_def)
  from filter_take_all [OF n l(1)] show ?thesis using s l n by (simp add: i)
qed

end
