(* ===== verification/Cli.thy ===== *)
theory Cli imports Transport Stc89_Plan Ihex begin

text \<open>
  The command line of \<open>src/src/bin/stcbsl.rs\<close>. Arguments, files and the serial port come
  from a record of the platform; what is printed is a list of values, one per line of
  output, without its wording. An error text is a value too, one constructor for each place
  that makes one; Cli_Text has the wording. \<open>drive_session\<close> is \<open>cmd_session\<close> from the open wire on, for any wire.
\<close>

section \<open>Errors and output\<close>

datatype cli_error =
    NeedsValue string
  | NotANumber string
  | NotAnInteger string
  | NotAByte string
  | ExpectedOneOf string string
  | UnknownOption string
  | NoCommand
  | UnknownCommand string
  | NeedsHexFile string
  | CannotRead string io_error
  | BadHexFile string hex_error
  | PortRequired
  | OpenFailed string serial_error
  | DriverFailed driver_error
  | PlanFailed protocol_error

text \<open>How the process ends; \<open>HelpShown\<close> is the \<open>exit(0)\<close> of \<open>--help\<close>.\<close>

datatype cli_end = Success | HelpShown | Stopped cli_error | Aborted

datatype out_line =
    UsageText
  | ImageLine string nat
  | LowestNote u32
  | GapNote nat
  | EraseLine nat nat
  | WriteLine nat
  | BlockLine nat u8 bool
  | LiveNote
  | NoPortsFound
  | PortLine string bool
  | WaitingLine u64 u32 string
  | TargetLines target_info u32
  | PlanLine nat
  | DoneLine job
  | SendLine string string "nat option"
  | ReplyLine u8 nat
  | NoteLine log_note
  | NoiseLine nat nat
  | ErrorLine cli_error

section \<open>Arguments\<close>

record args =
  arg_port :: "string option"
  arg_transfer_baud :: u32
  arg_handshake_baud :: u32
  parity_even :: bool
  wait_s :: u64
  arg_blocks :: "u8 option"
  write_options :: bool
  quiet :: bool
  arg_drain_mode :: drain_mode
  drain_margin_ms :: int
  command :: "string option"
  positional :: "string list"

definition args_default :: args where
  "args_default =
     \<lparr>arg_port = None, arg_transfer_baud = 115200, arg_handshake_baud = 2400, parity_even = False,
      wait_s = 30, arg_blocks = None, write_options = True, quiet = False,
      arg_drain_mode = drain_mode drain_config_default,
      drain_margin_ms = margin_ms drain_config_default, command = None, positional = []\<rparr>"

datatype cli_stop = Help | Fail cli_error

definition parse_unsigned :: "cli_error \<Rightarrow> nat \<Rightarrow> string \<Rightarrow> cli_error + nat" where
  "parse_unsigned e mx v = (case from_str_radix 10 mx v of None \<Rightarrow> Inl e | Some n \<Rightarrow> Inr n)"

definition map_ok :: "('a \<Rightarrow> 'b) \<Rightarrow> 'e + 'a \<Rightarrow> 'e + 'b" where
  "map_ok f r = (case r of Inl e \<Rightarrow> Inl e | Inr x \<Rightarrow> Inr (f x))"

text \<open>The macro \<open>next!\<close>, with what the arm does with the value.\<close>

definition next_value ::
    "string \<Rightarrow> (string \<Rightarrow> cli_error + args) \<Rightarrow> string list \<Rightarrow> cli_stop + string list \<times> args" where
  "next_value what f rest =
     (case rest of
        [] \<Rightarrow> Inl (Fail (NeedsValue what))
      | v # rest \<Rightarrow> (case f v of Inl e \<Rightarrow> Inl (Fail e) | Inr a \<Rightarrow> Inr (rest, a)))"

text \<open>
  The arms of the \<open>match\<close> on an argument: the ones without a value, the ones that take one
  with the name their error gives, and the two with a guard.
\<close>

definition flag_arm :: "string \<Rightarrow> (args \<Rightarrow> args) option" where
  "flag_arm arg =
     (if arg = ''-q'' \<or> arg = ''--quiet'' then Some (\<lambda>a. a\<lparr>quiet := True\<rparr>)
      else if arg = ''--keep-options'' then Some (\<lambda>a. a\<lparr>write_options := True\<rparr>)
      else if arg = ''--skip-options'' then Some (\<lambda>a. a\<lparr>write_options := False\<rparr>)
      else None)"

definition value_arm :: "string \<Rightarrow> (string \<times> (string \<Rightarrow> args \<Rightarrow> cli_error + args)) option" where
  "value_arm arg =
     (if arg = ''-p'' \<or> arg = ''--port'' then
        Some (''--port'', \<lambda>v a. Inr (a\<lparr>arg_port := Some v\<rparr>))
      else if arg = ''--baud'' then
        Some (''--baud'', \<lambda>v a. map_ok (\<lambda>n. a\<lparr>arg_transfer_baud := of_nat n\<rparr>)
          (parse_unsigned (NotANumber ''--baud'') (2 ^ 32 - 1) v))
      else if arg = ''--handshake-baud'' then
        Some (''--handshake-baud'', \<lambda>v a. map_ok (\<lambda>n. a\<lparr>arg_handshake_baud := of_nat n\<rparr>)
          (parse_unsigned (NotANumber ''--handshake-baud'') (2 ^ 32 - 1) v))
      else if arg = ''--drain-mode'' then
        Some (''--drain-mode'', \<lambda>v a.
          if v = ''tcdrain'' then Inr (a\<lparr>arg_drain_mode := TcDrain\<rparr>)
          else if v = ''wire'' then Inr (a\<lparr>arg_drain_mode := ComputeWireTime\<rparr>)
          else Inl (ExpectedOneOf ''--drain-mode'' v))
      else if arg = ''--drain-margin'' then
        Some (''--drain-margin'', \<lambda>v a.
          (case i64_from_str v of
             None \<Rightarrow> Inl (NotAnInteger ''--drain-margin'')
           | Some n \<Rightarrow> Inr (a\<lparr>drain_margin_ms := n\<rparr>)))
      else if arg = ''--parity'' then
        Some (''--parity'', \<lambda>v a.
          if v = ''none'' then Inr (a\<lparr>parity_even := False\<rparr>)
          else if v = ''even'' then Inr (a\<lparr>parity_even := True\<rparr>)
          else Inl (ExpectedOneOf ''--parity'' v))
      else if arg = ''--wait'' then
        Some (''--wait'', \<lambda>v a. map_ok (\<lambda>n. a\<lparr>wait_s := of_nat n\<rparr>)
          (parse_unsigned (NotANumber ''--wait'') (2 ^ 64 - 1) v))
      else if arg = ''--blocks'' then
        Some (''--blocks'', \<lambda>v a. map_ok (\<lambda>n. a\<lparr>arg_blocks := Some (of_nat n)\<rparr>)
          (parse_unsigned (NotAByte ''--blocks'') (2 ^ 8 - 1) v))
      else None)"

text \<open>One round of the loop, with what is left of the arguments behind it.\<close>

definition parse_arg :: "string \<Rightarrow> string list \<Rightarrow> args \<Rightarrow> cli_stop + string list \<times> args" where
  "parse_arg arg rest a =
     (if arg = ''-h'' \<or> arg = ''--help'' then Inl Help
      else case flag_arm arg of
        Some f \<Rightarrow> Inr (rest, f a)
      | None \<Rightarrow>
          (case value_arm arg of
             Some (what, f) \<Rightarrow> next_value what (\<lambda>v. f v a) rest
           | None \<Rightarrow>
               if prefix ''-'' arg then Inl (Fail (UnknownOption arg))
               else if command a = None then Inr (rest, a\<lparr>command := Some arg\<rparr>)
               else Inr (rest, a\<lparr>positional := positional a @ [arg]\<rparr>)))"

lemma next_value_shorter: "next_value what f rest = Inr (rest', a) \<Longrightarrow> length rest' \<le> length rest"
  by (auto simp: next_value_def split: list.splits sum.splits)

lemma parse_arg_shorter: "parse_arg arg rest a = Inr (rest', a') \<Longrightarrow> length rest' \<le> length rest"
  by (auto simp: parse_arg_def split: if_split_asm option.splits dest: next_value_shorter)

text \<open>The loop; the arguments still to be read stand for the index into \<open>argv\<close>.\<close>

function parse_loop :: "string list \<Rightarrow> args \<Rightarrow> cli_stop + args" where
  "parse_loop argv a =
     (case argv of
        [] \<Rightarrow> Inr a
      | arg # rest \<Rightarrow>
          (case parse_arg arg rest a of
             Inl e \<Rightarrow> Inl e
           | Inr (rest, a) \<Rightarrow> parse_loop rest a))"
  by pat_completeness auto
termination
  by (relation "measure (length \<circ> fst)") (auto simp: less_Suc_eq_le dest: parse_arg_shorter)

declare parse_loop.simps [simp del]

definition parse_args :: "string list \<Rightarrow> cli_stop + args" where
  "parse_args argv = parse_loop argv args_default"


section \<open>Reporting\<close>

text \<open>\<open>CliLog\<close>: what it prints for an event, and its count of discarded bytes.\<close>

definition cli_log :: "bool \<Rightarrow> log_event \<Rightarrow> nat \<Rightarrow> out_line list \<times> nat" where
  "cli_log q e noise =
     (case e of
        LogStep lbl bs \<Rightarrow>
          (if q then []
           else if 24 < length bs then [SendLine lbl (hex (take 16 bs)) (Some (length bs))]
           else [SendLine lbl (hex bs) None], noise)
      | LogReply f \<Rightarrow> (if q then [] else [ReplyLine (cmd f) (length (payload f))], noise)
      | LogNote n \<Rightarrow> (if q then [] else [NoteLine n], noise)
      | LogDiscarded d \<Rightarrow>
          (if q then [] else [NoiseLine (length d) (noise + length d)], noise + length d))"

primrec cli_logs :: "bool \<Rightarrow> log_event list \<Rightarrow> nat \<Rightarrow> out_line list \<times> nat" where
  "cli_logs q [] noise = ([], noise)"
| "cli_logs q (e # es) noise =
     (case cli_log q e noise of (ls, noise) \<Rightarrow>
        (case cli_logs q es noise of (ls', noise) \<Rightarrow> (ls @ ls', noise)))"

section \<open>Commands\<close>

record 'p platform =
  target :: target
  serial :: "'p serial_port"
  read_to_string :: "string \<Rightarrow> 'p \<Rightarrow> (io_error + string) \<times> 'p"

definition load_image ::
    "'p platform \<Rightarrow> string \<Rightarrow> bool \<Rightarrow> 'p \<Rightarrow> (cli_error + u8 list) \<times> out_line list \<times> 'p" where
  "load_image X path q w =
     (case read_to_string X path w of
        (Inl e, w) \<Rightarrow> (Inl (CannotRead path e), [], w)
      | (Inr txt, w) \<Rightarrow>
          (case parse txt of
             Inl e \<Rightarrow> (Inl (BadHexFile path e), [], w)
           | Inr img \<Rightarrow>
               (Inr (bytes img),
                if q then []
                else [ImageLine path (length (bytes img))]
                  @ (if lowest_addr img \<noteq> 0 then [LowestNote (lowest_addr img)] else [])
                  @ (if 0 < gap_bytes img then [GapNote (gap_bytes img)] else []),
                w)))"

definition explain_lines :: "u8 list \<Rightarrow> out_line list" where
  "explain_lines img =
     (let blocks = erase_blocks_for (length img);
          region = blocks * ERASE_BLOCK;
          padded = resize region 0xFF img
      in [EraseLine blocks region, WriteLine (region div WRITE_BLOCK)]
         @ map (\<lambda>(i, chunk). BlockLine (i * WRITE_BLOCK) (block_ack chunk) (list_all (\<lambda>b. b = 0xFF) chunk))
             (enumerate 0 (slice_chunks WRITE_BLOCK padded))
         @ [LiveNote])"

definition cmd_explain :: "'p platform \<Rightarrow> args \<Rightarrow> 'p \<Rightarrow> cli_end \<times> out_line list \<times> 'p" where
  "cmd_explain X a w =
     (case positional a of
        [] \<Rightarrow> (Stopped (NeedsHexFile ''explain''), [], w)
      | path # _ \<Rightarrow>
          (case load_image X path (quiet a) w of
             (Inl e, out, w) \<Rightarrow> (Stopped e, out, w)
           | (Inr img, out, w) \<Rightarrow> (Success, out @ explain_lines img, w)))"

definition cmd_ports :: "'p platform \<Rightarrow> 'p \<Rightarrow> cli_end \<times> out_line list \<times> 'p" where
  "cmd_ports X w =
     (case serial_list (serial X) w of (ps, w) \<Rightarrow>
        (Success,
         (if ps = [] then [NoPortsFound] else [])
         @ map (\<lambda>p. PortLine p (sublist ''/dev/tty.'' p)) ps, w))"

definition session_opts :: "args \<Rightarrow> session_options" where
  "session_opts a = session_options_default
     \<lparr>handshake_baud := arg_handshake_baud a, transfer_baud := arg_transfer_baud a\<rparr>"

definition wait_time :: "args \<Rightarrow> int" where
  "wait_time a = uint (wait_s a) * 1000000000"

definition drain_args :: "args \<Rightarrow> drain_config" where
  "drain_args a = \<lparr>drain_mode = arg_drain_mode a, margin_ms = drain_margin_ms a\<rparr>"

text \<open>\<open>cmd_session\<close> once the wire is open.\<close>

definition drive_session ::
    "'w wire \<Rightarrow> args \<Rightarrow> job \<Rightarrow> 'w \<Rightarrow> (cli_end \<times> out_line list \<times> 'w) option" where
  "drive_session W a job w =
     (let opts = session_opts a in
      case handshake W is_status_frame parse_status opts (wait_time a) [] w of
        None \<Rightarrow> None
      | Some (ex, log, w) \<Rightarrow>
          (case cli_logs (quiet a) log 0 of (out, noise) \<Rightarrow>
             (case ex of
                Panicked \<Rightarrow> Some (Aborted, out, w)
              | Failed e \<Rightarrow> Some (Stopped (DriverFailed e), out, w)
              | Done info \<Rightarrow>
                  let out = out @ [TargetLines info (handshake_baud opts)] in
                  (case plan info job opts of
                     Inl e \<Rightarrow> Some (Stopped (PlanFailed e), out, w)
                   | Inr sts \<Rightarrow>
                       let out = out @ (if quiet a then [] else [PlanLine (length sts)]) in
                       (case run W (session_new sts) (drain_args a) [] w of
                          None \<Rightarrow> None
                        | Some (ex, s, log, w) \<Rightarrow>
                            let out = out @ fst (cli_logs (quiet a) log noise) in
                            (case ex of
                               Panicked \<Rightarrow> Some (Aborted, out, w)
                             | Failed e \<Rightarrow> Some (Stopped (DriverFailed e), out, w)
                             | Done _ \<Rightarrow> Some (Success, out @ [DoneLine job], w)))))))"

definition cmd_session ::
    "'p platform \<Rightarrow> args \<Rightarrow> job \<Rightarrow> 'p \<Rightarrow> (cli_end \<times> out_line list \<times> 'p) option" where
  "cmd_session X a job w =
     (case arg_port a of
        None \<Rightarrow> Some (Stopped PortRequired, [], w)
      | Some path \<Rightarrow>
          (case serial_open (target X) (serial X) path (handshake_baud (session_opts a))
                  (if parity_even a then EvenParity else NoParity) w of
             Inl (e, w) \<Rightarrow> Some (Stopped (OpenFailed path e), [], w)
           | Inr s \<Rightarrow>
               (case drive_session (wire_impl (target X) (serial X)) a job s of
                  None \<Rightarrow> None
                | Some (res, out, s) \<Rightarrow>
                    Some (res,
                      (if quiet a then []
                       else [WaitingLine (wait_s a) (handshake_baud (session_opts a)) path]) @ out,
                      port s))))"

section \<open>The program\<close>

definition cmd_write :: "'p platform \<Rightarrow> args \<Rightarrow> 'p \<Rightarrow> (cli_end \<times> out_line list \<times> 'p) option" where
  "cmd_write X a w =
     (case positional a of
        [] \<Rightarrow> Some (Stopped (NeedsHexFile ''write''), [], w)
      | path # _ \<Rightarrow>
          (case load_image X path (quiet a) w of
             (Inl e, out, w) \<Rightarrow> Some (Stopped e, out, w)
           | (Inr img, out, w) \<Rightarrow>
               (case cmd_session X a (FlashJob img (write_options a)) w of
                  None \<Rightarrow> None
                | Some (res, out', w) \<Rightarrow> Some (res, out @ out', w))))"

definition cli_run :: "'p platform \<Rightarrow> string list \<Rightarrow> 'p \<Rightarrow> (cli_end \<times> out_line list \<times> 'p) option" where
  "cli_run X argv w =
     (if argv = [] then Some (Success, [UsageText], w)
      else case parse_args argv of
        Inl Help \<Rightarrow> Some (HelpShown, [UsageText], w)
      | Inl (Fail e) \<Rightarrow> Some (Stopped e, [], w)
      | Inr a \<Rightarrow>
          (case command a of
             None \<Rightarrow> Some (Stopped NoCommand, [], w)
           | Some c \<Rightarrow>
               if c = ''ports'' then Some (cmd_ports X w)
               else if c = ''explain'' then Some (cmd_explain X a w)
               else if c = ''identify'' \<or> c = ''info'' then cmd_session X a Identify w
               else if c = ''erase'' then cmd_session X a (EraseJob (arg_blocks a)) w
               else if c = ''write'' \<or> c = ''flash'' then cmd_write X a w
               else Some (Stopped (UnknownCommand c), [], w)))"

text \<open>\<open>main\<close>: an error is printed, and the exit code; a panic ends the process with 101.\<close>

definition cli_main :: "'p platform \<Rightarrow> string list \<Rightarrow> 'p \<Rightarrow> (nat \<times> out_line list \<times> 'p) option" where
  "cli_main X argv w =
     (case cli_run X argv w of
        None \<Rightarrow> None
      | Some (Success, out, w) \<Rightarrow> Some (0, out, w)
      | Some (HelpShown, out, w) \<Rightarrow> Some (0, out, w)
      | Some (Stopped e, out, w) \<Rightarrow> Some (1, out @ [ErrorLine e], w)
      | Some (Aborted, out, w) \<Rightarrow> Some (101, out, w))"

end
