(* ===== verification/Stc89_Status.thy ===== *)
theory Stc89_Status imports Stc89_Facts begin

text \<open>
  What \<open>parse_status\<close> accepts and which bytes its result depends on, with the
  status packet of a chip that measures 10972800 Hz as the running example.
\<close>

section \<open>The frequency words\<close>

definition word_at :: "u8 list \<Rightarrow> nat \<Rightarrow> u16" where
  "word_at p i = from_be16 (p ! (2 * i)) (p ! (2 * i + 1))"

lemma status_words_nth: "i < 8 \<Longrightarrow> status_words p ! i = word_at p i"
  by (simp add: status_words_def word_at_def Let_def OFF_FREQ_def FREQ_WORD_COUNT_def mult.commute)

lemma length_status_words [simp]: "length (status_words p) = 8"
  by (simp add: status_words_def FREQ_WORD_COUNT_def)

definition words_agree :: "u8 list \<Rightarrow> bool" where
  "words_agree p \<longleftrightarrow> (\<forall>i < 8. word_at p i = word_at p 0)"

lemma status_words_differ:
  "(\<exists>w \<in> set (status_words p). w \<noteq> status_words p ! 0) \<longleftrightarrow> \<not> words_agree p"
proof -
  have "(\<exists>w \<in> set (status_words p). w \<noteq> status_words p ! 0) \<longleftrightarrow>
      (\<exists>i < 8. status_words p ! i \<noteq> status_words p ! 0)"
    by (metis in_set_conv_nth length_status_words)
  also have "\<dots> \<longleftrightarrow> (\<exists>i < 8. word_at p i \<noteq> word_at p 0)"
    by (simp add: status_words_nth cong: conj_cong)
  finally show ?thesis unfolding words_agree_def by blast
qed

lemma status_words_agree: "words_agree p \<Longrightarrow> status_words p = replicate 8 (word_at p 0)"
proof (rule nth_equalityI)
  assume a: "words_agree p"
  fix i
  assume "i < length (status_words p)"
  then have "i < 8" by simp
  with a have "word_at p i = word_at p 0" unfolding words_agree_def by blast
  with \<open>i < 8\<close> show "status_words p ! i = replicate 8 (word_at p 0) ! i"
    by (simp only: status_words_nth nth_replicate)
qed simp

definition plausible_hz :: "nat \<Rightarrow> bool" where
  "plausible_hz hz \<longleftrightarrow> 1000000 \<le> hz \<and> hz \<le> 48000000"

lemma freq_range:
  "FREQ_MIN_HZ \<le> hz \<and> hz \<le> FREQ_MAX_HZ \<longleftrightarrow> plausible_hz (unat hz)"
  by (simp add: FREQ_MIN_HZ_def FREQ_MAX_HZ_def word_le_nat_alt plausible_hz_def)

definition known_chip :: "u8 list \<Rightarrow> bool" where
  "known_chip chip \<longleftrightarrow> chip = [0xF0, 0x02]"

lemma find_known: "find (\<lambda>(id, _). id = chip) KNOWN_CHIPS =
    (if known_chip chip then Some ([0xF0, 0x02], ''STC89C52RC/LE52RC'', 8192, 6144) else None)"
  by (auto simp: KNOWN_CHIPS_def known_chip_def)

text \<open>The information a well-formed status payload holds.\<close>

definition status_info :: "u8 list \<Rightarrow> u32 \<Rightarrow> target_info" where
  "status_info p b = (let chip = [p ! 19, p ! 20] in
     \<lparr>family = ''stc89'', chip_id = chip,
      model = (if known_chip chip then Some ''STC89C52RC/LE52RC'' else None),
      code_flash = (if known_chip chip then Some 8192 else None),
      eeprom_flash = (if known_chip chip then Some 6144 else None),
      bsl_version = status_version p,
      measured_hz = frequency_hz (word_at p 0) b,
      freq_words = replicate 8 (word_at p 0),
      option_bytes = [p ! 18],
      raw_status = p\<rparr>)"

lemma take_two: "n + 2 \<le> length p \<Longrightarrow> take 2 (drop n p) = [p ! n, p ! (n + 1)]"
  by (simp add: list_eq_iff_nth_eq nth_Cons' less_2_cases_iff)

lemma parse_status_iff:
  "parse_status f b = Inr info \<longleftrightarrow>
     dir f = McuToHost \<and> cmd f = 0 \<and> 52 \<le> length (payload f)
     \<and> words_agree (payload f)
     \<and> plausible_hz (unat (word_at (payload f) 0) * unat b * 12 div 7)
     \<and> info = status_info (payload f) b"
proof -
  let ?p = "payload f"
  have chip: "52 \<le> length ?p \<Longrightarrow> take 2 (drop 19 ?p) = [?p ! 19, ?p ! 20]"
    using take_two [of 19 ?p] by simp
  show ?thesis
    unfolding parse_status_def status_info_def status_words_differ freq_range Let_def
      find_known unat_frequency_hz
    by (auto simp: CMD_STATUS_def STATUS_PAYLOAD_LEN_def OFF_CHIP_ID_def CHIP_ID_LEN_def OFF_OPTION_def
        status_words_nth unat_frequency_hz chip status_words_agree split: if_splits)
qed

text \<open>
  C20: What \<open>parse_status\<close> accepts. It succeeds exactly on a status frame of the
  MCU with at least 52 payload bytes whose eight frequency words agree and give, exactly and
  without wrap-around, an oscillator between 1 and 48 MHz; the clock it reports is
  word * baud * 12 / 7, the option byte is payload byte 18 as received and the chip
  id is bytes 19 and 20.
\<close>

theorem parse_status_accepts_exactly:
  "(\<exists>info. parse_status f b = Inr info \<and> unat (measured_hz info) = hz
      \<and> option_bytes info = [opt] \<and> chip_id info = chip) \<longleftrightarrow>
   dir f = McuToHost \<and> cmd f = 0 \<and> 52 \<le> length (payload f)
   \<and> (\<exists>w. (\<forall>i < 8. from_be16 (payload f ! (2 * i)) (payload f ! (2 * i + 1)) = w)
          \<and> hz = unat w * unat b * 12 div 7 \<and> 1000000 \<le> hz \<and> hz \<le> 48000000)
   \<and> opt = payload f ! 18 \<and> chip = [payload f ! 19, payload f ! 20]"
proof -
  let ?p = "payload f"
  have "(\<exists>w. (\<forall>i < 8. word_at ?p i = w) \<and> Q w) \<longleftrightarrow> words_agree ?p \<and> Q (word_at ?p 0)" for Q
    unfolding words_agree_def by (metis zero_less_numeral)
  note agree = this
  show ?thesis
    unfolding parse_status_iff word_at_def [symmetric] agree
    by (auto simp: status_info_def Let_def unat_frequency_hz plausible_hz_def)
qed

text \<open>
  The opaque region of the status packet plays no part. Two status frames of
  52 payload bytes or more that agree on their first 21 bytes are both refused with the
  same error, or give the same information up to the copy kept for the record.
\<close>

lemma status_opaque_region_ignored:
  assumes "dir f = dir g" and "cmd f = cmd g"
    and "52 \<le> length (payload f)" and "52 \<le> length (payload g)"
    and "take 21 (payload f) = take 21 (payload g)"
  shows "map_sum id (\<lambda>info. info\<lparr>raw_status := []\<rparr>) (parse_status f b) =
         map_sum id (\<lambda>info. info\<lparr>raw_status := []\<rparr>) (parse_status g b)"
proof -
  have nth: "payload f ! i = payload g ! i" if "i < 21" for i
    using arg_cong [OF assms(5), of "\<lambda>xs. xs ! i"] that assms(3,4) by simp
  have w: "status_words (payload f) = status_words (payload g)"
    by (rule nth_equalityI) (simp_all add: status_words_nth word_at_def nth)
  have v: "status_version (payload f) = status_version (payload g)"
    by (simp add: status_version_def OFF_VERSION_def nth)
  have c: "take 2 (drop 19 (payload f)) = take 2 (drop 19 (payload g))"
    using assms(3,4) take_two [of 19 "payload f"] take_two [of 19 "payload g"] by (simp add: nth)
  show ?thesis
    using assms(1-4)
    by (simp add: parse_status_def Let_def w v c nth CHIP_ID_LEN_def OFF_CHIP_ID_def OFF_OPTION_def
        STATUS_PAYLOAD_LEN_def)
qed

section \<open>An example\<close>

definition sample_status :: "u8 list \<Rightarrow> frame" where
  "sample_status tail = frame_mcu 0x00
     ([0x0A, 0x6B, 0x0A, 0x6B, 0x0A, 0x6B, 0x0A, 0x6B, 0x0A, 0x6B, 0x0A, 0x6B, 0x0A, 0x6B, 0x0A, 0x6B,
       0x66, 0x43, 0xFD, 0xF0, 0x02] @ tail)"

definition sample_info :: target_info where
  "sample_info = status_info (payload (sample_status (replicate 31 0))) 2400"

lemma all_less_8: "(\<forall>i < 8. P i) \<longleftrightarrow> P 0 \<and> P 1 \<and> P 2 \<and> P 3 \<and> P 4 \<and> P 5 \<and> P 6 \<and> P (7 :: nat)"
  by (simp add: eval_nat_numeral All_less_Suc) blast

lemma sample_words: "words_agree (payload (sample_status tail))"
  "word_at (payload (sample_status tail)) 0 = from_be16 0x0A 0x6B"
  by (simp_all add: words_agree_def all_less_8 word_at_def sample_status_def frame_mcu_def)

lemma sample_parses: "parse_status (sample_status (replicate 31 0)) 2400 = Inr sample_info"
  unfolding sample_info_def parse_status_iff
  by (simp add: sample_words plausible_hz_def unat_from_be16) (simp add: sample_status_def frame_mcu_def)

lemma sample_fields:
  "unat (measured_hz sample_info) = 10972800" "code_flash sample_info = Some 8192"
  "option_bytes sample_info = [0xFD]" "chip_id sample_info = [0xF0, 0x02]"
  by (simp_all add: sample_info_def status_info_def Let_def unat_frequency_hz sample_words unat_from_be16)
    (simp_all add: sample_status_def frame_mcu_def known_chip_def)

theorem parse_status_accepts_exactly_witness:
  "\<exists>info. parse_status (sample_status (replicate 31 0)) 2400 = Inr info \<and> unat (measured_hz info) = 10972800
     \<and> option_bytes info = [0xFD] \<and> chip_id info = [0xF0, 0x02]"
proof -
  let ?f = "sample_status (replicate 31 0)"
  have "\<forall>i < 8. from_be16 (payload ?f ! (2 * i)) (payload ?f ! (2 * i + 1)) = from_be16 0x0A 0x6B"
    using sample_words(1) [of "replicate 31 0"] sample_words(2) [of "replicate 31 0"]
    unfolding words_agree_def word_at_def by metis
  moreover have "unat (from_be16 0x0A 0x6B) * unat (2400 :: u32) * 12 div 7 = 10972800"
    by (simp add: unat_from_be16)
  ultimately have "\<exists>w. (\<forall>i < 8. from_be16 (payload ?f ! (2 * i)) (payload ?f ! (2 * i + 1)) = w)
      \<and> 10972800 = unat w * unat (2400 :: u32) * 12 div 7
      \<and> 1000000 \<le> (10972800 :: nat) \<and> (10972800 :: nat) \<le> 48000000"
    by (intro exI [of _ "from_be16 0x0A 0x6B"]) simp
  then show ?thesis
    by (subst parse_status_accepts_exactly) (simp add: sample_status_def frame_mcu_def)
qed

end
