(* ===== verification/Stc89_Flash.thy ===== *)
theory Stc89_Flash imports Stc89_Plan Stc89_Status begin

text \<open>
  What a flashing plan programs. \<open>written\<close> reads a list of frames back into the
  bytes their write frames carry, address by address, the later frame winning;
  the plan of a flash job is compared with the image through it, and with the
  erase frame that precedes it.
\<close>

section \<open>Reading write frames back\<close>

definition write_request :: "frame \<Rightarrow> (nat \<times> u8 list) option" where
  "write_request f =
     (let p = payload f
      in if dir f = HostToMcu \<and> cmd f = CMD_WRITE \<and> 6 \<le> length p
            \<and> unat (from_be16 (p ! 4) (p ! 5)) = length p - 6
         then Some (unat (from_be32 (p ! 0) (p ! 1) (p ! 2) (p ! 3)), drop 6 p) else None)"

fun written :: "frame list \<Rightarrow> nat \<Rightarrow> u8 option" where
  "written [] a = None"
| "written (f # fs) a =
     (case written fs a of
        Some b \<Rightarrow> Some b
      | None \<Rightarrow>
          (case write_request f of
             Some (base, d) \<Rightarrow> if base \<le> a \<and> a < base + length d then Some (d ! (a - base)) else None
           | None \<Rightarrow> None))"

lemma from_be32_split [simp]:
  "from_be32 (ucast (drop_bit 24 w)) (ucast (drop_bit 16 w)) (ucast (drop_bit 8 w)) (ucast w) = w"
  unfolding from_be32_def
proof (rule bit_word_eqI)
  fix n
  assume "n < LENGTH(32)"
  then consider "n < 8" | "8 \<le> n" "n < 16" | "16 \<le> n" "n < 24" | "24 \<le> n" "n < 32" by fastforce
  then show "bit (push_bit 24 (ucast (ucast (drop_bit 24 w) :: u8)) OR
      push_bit 16 (ucast (ucast (drop_bit 16 w) :: u8)) OR
      push_bit 8 (ucast (ucast (drop_bit 8 w) :: u8)) OR (ucast (ucast w :: u8) :: u32)) n = bit w n"
    by cases (auto simp: bit_simps)
qed

lemma write_request_write_frame:
  "length c < 65536 \<Longrightarrow> write_request (write_frame a c) = Some (unat a, c)"
  by (simp add: write_request_def write_frame_def to_be32_def to_be16_def unat_of_nat_u16)

lemma written_append:
  "written (fs @ gs) a = (case written gs a of Some b \<Rightarrow> Some b | None \<Rightarrow> written fs a)"
  by (induction fs) (auto split: option.splits)

lemma written_none: "\<forall>f \<in> set fs. cmd f \<noteq> CMD_WRITE \<Longrightarrow> written fs a = None"
  by (induction fs) (auto simp: write_request_def Let_def)

definition block_frame :: "nat \<Rightarrow> u8 list \<Rightarrow> frame" where
  "block_frame i c = write_frame (of_nat (i * 128)) c"

lemma write_request_block:
  "length c = 128 \<Longrightarrow> i * 128 < 4294967296 \<Longrightarrow> write_request (block_frame i c) = Some (i * 128, c)"
  by (simp add: block_frame_def write_request_write_frame unat_of_nat_u32 del: of_nat_mult)

lemma written_enumerate:
  assumes "\<forall>c \<in> set cs. length c = 128" and "(k + length cs) * 128 < 4294967296"
  shows "written (map (\<lambda>(i, c). block_frame i c) (enumerate k cs)) a =
    (if k * 128 \<le> a \<and> a < (k + length cs) * 128 then Some (concat cs ! (a - k * 128)) else None)"
  using assms
proof (induction cs arbitrary: k)
  case Nil
  then show ?case by simp
next
  case (Cons c cs)
  have c: "length c = 128" and r: "write_request (block_frame k c) = Some (k * 128, c)"
    using Cons.prems by (simp_all add: write_request_block)
  have IH: "written (map (\<lambda>(i, c). block_frame i c) (enumerate (Suc k) cs)) a =
    (if Suc k * 128 \<le> a \<and> a < (Suc k + length cs) * 128 then Some (concat cs ! (a - Suc k * 128))
     else None)"
    using Cons.prems by (intro Cons.IH) auto
  consider "a < k * 128" | "k * 128 \<le> a" "a < Suc k * 128" | "Suc k * 128 \<le> a" by linarith
  then show ?case
    using IH r c by cases (auto simp: nth_append add.commute)
qed

section \<open>The write steps of a plan\<close>

lemma erase_blocks_Flash:
  "erase_blocks info (FlashJob img wo) = Some (Inr n) \<Longrightarrow>
     img \<noteq> [] \<and> n = erase_blocks_for (length img) \<and> (\<forall>cap. code_flash info = Some cap \<longrightarrow> length img \<le> cap)"
  by (auto simp: erase_blocks_def split: if_splits option.splits)

lemma write_chunks:
  fixes img :: "u8 list"
  defines "cs n \<equiv> slice_chunks WRITE_BLOCK (resize (n * ERASE_BLOCK) 0xFF img)"
  shows "length (cs n) = 2 * n" "\<forall>c \<in> set (cs n). length c = 128"
    "concat (cs n) = resize (n * ERASE_BLOCK) 0xFF img"
proof -
  have "length (resize (n * ERASE_BLOCK) 0xFF img) = (2 * n) * 128" by (simp add: ERASE_BLOCK_def)
  from slice_chunks_exact [OF _ this] show "length (cs n) = 2 * n" "\<forall>c \<in> set (cs n). length c = 128"
    by (simp_all add: cs_def WRITE_BLOCK_def)
  show "concat (cs n) = resize (n * ERASE_BLOCK) 0xFF img"
    unfolding cs_def WRITE_BLOCK_def by (rule concat_slice_chunks) simp
qed

lemma write_steps_frames:
  "map frame (write_steps opts img n) =
     map (\<lambda>(i, c). block_frame i c)
       (enumerate 0 (slice_chunks WRITE_BLOCK (resize (n * ERASE_BLOCK) 0xFF img)))"
  by (auto simp: write_steps_def Let_def block_frame_def WRITE_BLOCK_def simp del: of_nat_mult)

lemma written_write_steps:
  assumes "n \<le> 255"
  shows "written (map frame (write_steps opts img n)) a =
    (if a < n * ERASE_BLOCK then Some (resize (n * ERASE_BLOCK) 0xFF img ! a) else None)"
proof -
  have "(0 + length (slice_chunks WRITE_BLOCK (resize (n * ERASE_BLOCK) 0xFF img))) * 128 < 4294967296"
    using assms by (simp add: write_chunks)
  from written_enumerate [OF write_chunks(2) this] show ?thesis
    unfolding write_steps_frames by (simp add: write_chunks(1,3) [of n img]) (simp add: ERASE_BLOCK_def)
qed

lemma erase_blocks_for_cover: "m \<le> erase_blocks_for m * ERASE_BLOCK"
  by (simp add: erase_blocks_for_eq ERASE_BLOCK_def)

lemma nth_resize:
  "a < n \<Longrightarrow> resize n x xs ! a = (if a < length xs then xs ! a else x)"
  by (auto simp: resize_def nth_append min_def)

lemma prologue_cmd: "f \<in> frame ` set (prologue info opts r) \<Longrightarrow> cmd f \<notin> {CMD_WRITE, CMD_ERASE, CMD_OPTIONS}"
  by (auto simp: frame_builders stc89_commands dest!: in_prologue)

lemma flash_plan:
  assumes "plan info (FlashJob img wo) opts = Inr sts"
  obtains reload where "sts = prologue info opts reload @
      erase_step opts (erase_blocks_for (length img)) #
      write_steps opts img (erase_blocks_for (length img)) @
      (if wo then [options_step info opts] else []) @ [run_step opts]"
    and "erase_blocks_for (length img) \<le> 255" and "img \<noteq> []"
    and "\<forall>cap. code_flash info = Some cap \<longrightarrow> length img \<le> cap"
  using assms by (cases rule: plan_cases) (auto dest!: erase_blocks_Flash)

lemma flash_plan_written:
  assumes "plan info (FlashJob img wo) opts = Inr sts"
  shows "written (map frame sts) a =
    (if a < length img then Some (img ! a)
     else if a < erase_blocks_for (length img) * ERASE_BLOCK then Some 0xFF
     else None)"
proof -
  let ?n = "erase_blocks_for (length img)"
  from flash_plan [OF assms] obtain reload where
    sts: "sts = prologue info opts reload @ erase_step opts ?n # write_steps opts img ?n @
      (if wo then [options_step info opts] else []) @ [run_step opts]" and n: "?n \<le> 255" by metis
  let ?post = "map frame ((if wo then [options_step info opts] else []) @ [run_step opts])"
  have "written (map frame (prologue info opts reload)) a = None"
    using prologue_cmd by (intro written_none) auto
  moreover have "written [erase_frame (of_nat ?n)] a = None" and "written ?post a = None"
    by (rule written_none; simp add: frame_builders stc89_commands)+
  moreover have "map frame sts = map frame (prologue info opts reload) @ [erase_frame (of_nat ?n)] @
      map frame (write_steps opts img ?n) @ ?post" by (simp add: sts)
  ultimately have "written (map frame sts) a = written (map frame (write_steps opts img ?n)) a"
    by (simp only: written_append) (simp split: option.splits)
  then show ?thesis using erase_blocks_for_cover [of "length img"]
    by (simp add: written_write_steps [OF n] nth_resize)
qed

lemma flash_plan_region:
  "plan info (FlashJob img wo) opts = Inr sts \<Longrightarrow> written (map frame sts) a \<noteq> None \<Longrightarrow>
     a < erase_blocks_for (length img) * ERASE_BLOCK"
  using erase_blocks_for_cover [of "length img"]
  by (simp add: flash_plan_written split: if_splits)

text \<open>
  C6: A flashing plan programs the image and nothing else. Reading its frames
  back, every address below the image's length receives the image's byte, every
  further address of the erased region receives 0xFF, and no other address is
  written; addresses and lengths do not wrap.
\<close>

theorem flash_plan_programs_image:
  assumes "plan info (FlashJob img wo) opts = Inr sts"
  shows "written (map frame sts) a =
    (if a < length img then Some (img ! a)
     else if a < erase_blocks_for (length img) * ERASE_BLOCK then Some 0xFF
     else None)"
  using assms by (rule flash_plan_written)

lemma plan_accepts_iff:
  "(\<exists>sts. plan info (FlashJob img wo) opts = Inr sts) \<longleftrightarrow>
     (\<exists>r. timer_reload (measured_hz info) (transfer_baud opts) = Inr r) \<and> img \<noteq> []
     \<and> (\<forall>cap. code_flash info = Some cap \<longrightarrow> length img \<le> cap) \<and> erase_blocks_for (length img) \<le> 255"
  by (auto simp: plan_work erase_blocks_def erase_blocks_for_pos split: option.splits if_splits)

lemma erase_blocks_for_le: "erase_blocks_for n \<le> 255 \<longleftrightarrow> n \<le> 65024"
proof -
  have "erase_blocks_for n \<le> 255 \<longleftrightarrow> (n + 511) div 512 < 128"
    unfolding erase_blocks_for_eq by linarith
  also have "\<dots> \<longleftrightarrow> n + 511 < 128 * 512" by (rule div_less_iff_less_mult) simp
  finally show ?thesis by linarith
qed

lemma sample_reload:
  "timer_reload (measured_hz sample_info) (transfer_baud session_options_default) = Inr 0xFD"
proof -
  have "timer_reload (measured_hz sample_info) 115200 = Inr 0xFD"
    by (subst timer_reload_ticks)
      (simp_all add: sample_fields ticks_of_def)
  then show ?thesis by (simp add: session_options_default_def)
qed

lemma sample_plan:
  "img \<noteq> [] \<Longrightarrow> length img \<le> 8192 \<Longrightarrow>
     \<exists>sts. plan sample_info (FlashJob img wo) session_options_default = Inr sts"
  unfolding plan_accepts_iff erase_blocks_for_le using sample_reload by (auto simp: sample_fields)

theorem flash_plan_programs_image_witness:
  "\<exists>sts. plan sample_info (FlashJob [0x02, 0x00, 0x1A] True) session_options_default = Inr sts
     \<and> written (map frame sts) 2 = Some 0x1A \<and> written (map frame sts) 511 = Some 0xFF
     \<and> written (map frame sts) 512 = None"
proof -
  obtain sts where p: "plan sample_info (FlashJob [0x02, 0x00, 0x1A] True) session_options_default = Inr sts"
    using sample_plan [of "[0x02, 0x00, 0x1A]" True] by auto
  from flash_plan_programs_image [OF p] p show ?thesis
    by (simp add: erase_blocks_for_eq ERASE_BLOCK_def nth_Cons')
qed

text \<open>
  C33: When a flash job is accepted. A plan exists exactly when the transfer baud
  has a timer reload, the image is not empty, it fits the code flash where that is
  known, and it is at most 65024 bytes, the largest region a one-byte block count in
  512-byte granules can erase.
\<close>

theorem flash_accepted_iff:
  "(\<exists>sts. plan info (FlashJob img wo) opts = Inr sts) \<longleftrightarrow>
     (\<exists>r. timer_reload (measured_hz info) (transfer_baud opts) = Inr r) \<and> img \<noteq> []
     \<and> (\<forall>cap. code_flash info = Some cap \<longrightarrow> length img \<le> cap) \<and> length img \<le> 65024"
  unfolding plan_accepts_iff erase_blocks_for_le ..

theorem flash_accepted_iff_witness:
  "(\<exists>sts. plan sample_info (FlashJob [0x80] True) session_options_default = Inr sts)
    \<and> \<not> (\<exists>sts. plan sample_info (FlashJob (replicate 8193 0) True) session_options_default = Inr sts)"
  by (subst (1 2) flash_accepted_iff) (simp add: sample_reload sample_fields)

section \<open>Erase before write\<close>

lemma write_steps_cmd: "f \<in> frame ` set (write_steps opts img n) \<Longrightarrow> cmd f = CMD_WRITE"
  by (auto simp: write_steps_def Let_def write_frame_def)

lemma tail_cmd:
  "f \<in> frame ` set ((if wo then [options_step info opts] else []) @ [run_step opts]) \<Longrightarrow>
     cmd f \<notin> {CMD_WRITE, CMD_ERASE}"
  by (auto simp: frame_builders stc89_commands split: if_splits)

text \<open>
  C19: A flashing plan fills exactly what it erases. It holds one erase frame, no
  write precedes it, its one-byte block count did not wrap, and the addresses the frames after
  it write are exactly the erased region, so no byte is programmed twice without
  an erase and none of the erased region is left unwritten.
\<close>

theorem flash_plan_fills_erased_region:
  assumes "plan info (FlashJob img wo) opts = Inr sts"
  shows "\<exists>n pre post. map frame sts = pre @ erase_frame n # post
    \<and> (\<forall>f \<in> set pre \<union> set post. cmd f \<noteq> CMD_ERASE) \<and> (\<forall>f \<in> set pre. cmd f \<noteq> CMD_WRITE)
    \<and> unat n = erase_blocks_for (length img)
    \<and> {a. written post a \<noteq> None} = {..< unat n * ERASE_BLOCK}"
proof -
  let ?n = "erase_blocks_for (length img)"
  from flash_plan [OF assms] obtain reload where
    sts: "sts = prologue info opts reload @ erase_step opts ?n # write_steps opts img ?n @
      (if wo then [options_step info opts] else []) @ [run_step opts]" and n: "?n \<le> 255" by metis
  define tail where "tail = (if wo then [options_step info opts] else []) @ [run_step opts]"
  let ?pre = "map frame (prologue info opts reload)"
  let ?post = "map frame (write_steps opts img ?n) @ map frame tail"
  have u: "unat (of_nat ?n :: u8) = ?n" using n by (simp add: unsigned_of_nat take_bit_nat_eq_self)
  have "written (map frame tail) a = None" for a
    using tail_cmd [of _ wo info opts] by (intro written_none) (auto simp: tail_def)
  then have w: "{a. written ?post a \<noteq> None} = {..< unat (of_nat ?n :: u8) * ERASE_BLOCK}"
    unfolding u by (auto simp: written_append written_write_steps [OF n] split: if_splits)
  have "map frame sts = ?pre @ erase_frame (of_nat ?n) # ?post" by (simp add: sts tail_def)
  moreover have pre: "\<forall>f \<in> set ?pre. cmd f \<notin> {CMD_WRITE, CMD_ERASE}"
    using prologue_cmd [of _ info opts reload] by auto
  moreover have "CMD_WRITE \<noteq> CMD_ERASE" by (simp add: stc89_commands)
  then have "\<forall>f \<in> set ?post. cmd f \<noteq> CMD_ERASE"
    using write_steps_cmd [of _ opts img ?n] tail_cmd [of _ wo info opts]
    by (metis (mono_tags, lifting) Un_iff image_set insert_iff set_append tail_def)
  then have "\<forall>f \<in> set ?pre \<union> set ?post. cmd f \<noteq> CMD_ERASE" using pre by blast
  moreover have "\<forall>f \<in> set ?pre. cmd f \<noteq> CMD_WRITE" using pre by blast
  ultimately show ?thesis using w u
    by (intro exI [of _ "of_nat ?n"] exI [of _ ?pre] exI [of _ ?post] conjI) assumption+
qed

theorem flash_plan_fills_erased_region_witness:
  "\<exists>sts n pre post. plan sample_info (FlashJob (replicate 600 0) False) session_options_default = Inr sts
    \<and> map frame sts = pre @ erase_frame n # post \<and> unat n = 4
    \<and> {a. written post a \<noteq> None} = {..< 1024}"
proof -
  obtain sts where p: "plan sample_info (FlashJob (replicate 600 0) False) session_options_default = Inr sts"
    using sample_plan [of "replicate 600 0" False] by auto
  from flash_plan_fills_erased_region [OF p] obtain n pre post where
    "map frame sts = pre @ erase_frame n # post" "unat n = 4" "{a. written post a \<noteq> None} = {..< 1024}"
    by (auto simp: erase_blocks_for_eq ERASE_BLOCK_def)
  with p show ?thesis by blast
qed

end
