(* ===== verification/Stc89_Safety.thy ===== *)
theory Stc89_Safety imports Stc89_Flash begin

text \<open>
  The safety of a plan for the chip on the other end: the option byte it is sent,
  the addresses it is written at, the acknowledgements it must give, the line rate of
  every exchange, the order of the phases, and the clocks at which a plan exists.
\<close>

section \<open>The option byte\<close>

lemma parse_status_fields:
  assumes "parse_status f b = Inr info"
  shows "option_bytes info = [payload f ! 18]"
    and "code_flash info = Some cap \<Longrightarrow> cap = 8192"
    and "unat (measured_hz info) \<le> 48000000" and "1000000 \<le> unat (measured_hz info)"
proof -
  from assms have i: "info = status_info (payload f) b"
    and h: "plausible_hz (unat (word_at (payload f) 0) * unat b * 12 div 7)"
    by (simp_all add: parse_status_iff)
  show "option_bytes info = [payload f ! 18]" by (simp add: i status_info_def Let_def)
  show "code_flash info = Some cap \<Longrightarrow> cap = 8192"
    by (simp add: i status_info_def Let_def split: if_splits)
  show "unat (measured_hz info) \<le> 48000000" "1000000 \<le> unat (measured_hz info)"
    using h by (simp_all add: i status_info_def Let_def unat_frequency_hz plausible_hz_def)
qed

lemma filter_options_none:
  "\<forall>f \<in> set fs. cmd f \<noteq> CMD_OPTIONS \<Longrightarrow> filter (\<lambda>g. cmd g = CMD_OPTIONS) fs = []"
  by (simp add: filter_empty_conv)

lemma plan_options:
  assumes "plan info job opts = Inr sts"
  shows "filter (\<lambda>g. cmd g = CMD_OPTIONS) (map frame sts) =
    (case job of FlashJob _ True \<Rightarrow> [options_frame info] | _ \<Rightarrow> [])"
  using assms
proof (cases rule: plan_cases)
  case 1
  then show ?thesis by (simp add: run_frame_def stc89_commands)
next
  case (2 reload n)
  have p: "filter (\<lambda>g. cmd g = CMD_OPTIONS) (map frame (prologue info opts reload)) = []"
    using prologue_cmd by (intro filter_options_none) auto
  have w: "filter (\<lambda>g. cmd g = CMD_OPTIONS) (map frame (write_steps opts img n)) = []" for img
  proof (intro filter_options_none ballI)
    fix f
    assume "f \<in> set (map frame (write_steps opts img n))"
    then have "cmd f = CMD_WRITE" by (intro write_steps_cmd) auto
    then show "cmd f \<noteq> CMD_OPTIONS" by (simp add: stc89_commands)
  qed
  have e: "cmd (erase_frame (of_nat n)) \<noteq> CMD_OPTIONS" "cmd run_frame \<noteq> CMD_OPTIONS"
    "cmd (options_frame info) = CMD_OPTIONS"
    by (simp_all add: frame_builders stc89_commands)
  from 2 show ?thesis by (cases job) (simp_all add: p w e split: bool.splits)
qed

text \<open>
  The option byte only ever travels back. In a plan made from a parsed status
  packet the options frames are none at all, unless the job is a flash that asks
  for one; then there is exactly one, and its payload is byte 18 of that packet
  followed by three 0xFF.
\<close>

lemma options_byte_only_echoed:
  assumes "parse_status f b = Inr info" and "plan info job opts = Inr sts"
  shows "filter (\<lambda>g. cmd g = CMD_OPTIONS) (map frame sts) =
    (case job of
       FlashJob _ True \<Rightarrow> [frame_host CMD_OPTIONS [payload f ! 18, 0xFF, 0xFF, 0xFF]]
     | _ \<Rightarrow> [])"
  using plan_options [OF assms(2)] parse_status_fields(1) [OF assms(1)]
  by (simp add: options_frame_def OPTIONS_TAIL_def eval_nat_numeral split: job.splits bool.splits)

section \<open>Where a plan writes\<close>

lemma plan_writes_only_flash:
  assumes "plan info job opts = Inr sts" and "written (map frame sts) a \<noteq> None"
  obtains img wo where "job = FlashJob img wo"
proof (cases job)
  case (FlashJob img wo)
  then show ?thesis by (rule that)
next
  case Identify
  moreover have "written [run_frame] a = None"
    by (rule written_none) (simp add: run_frame_def stc89_commands)
  ultimately show ?thesis using assms by (auto simp del: written.simps)
next
  case (EraseJob k)
  with assms(1) obtain reload n where "sts = prologue info opts reload @ [erase_step opts n, run_step opts]"
    by (cases rule: plan_cases) auto
  moreover have "\<forall>f \<in> set (map frame (prologue info opts reload) @ [erase_frame (of_nat n), run_frame]).
      cmd f \<noteq> CMD_WRITE"
    using prologue_cmd [of _ info opts reload] by (auto simp: frame_builders stc89_commands)
  from written_none [OF this, of a] have "written (map frame (prologue info opts reload) @
      [erase_frame (of_nat n), run_frame]) a = None" .
  ultimately show ?thesis using assms(2) by simp
qed

text \<open>
  Nothing is written past the code flash. For a chip the status packet
  identifies, every address a plan's frames write lies below the chip's code flash
  size, padding included; a plan of another job than a flash writes nothing.
\<close>

lemma plan_writes_below_capacity:
  assumes "parse_status f b = Inr info" and "plan info job opts = Inr sts"
    and "code_flash info = Some cap" and "written (map frame sts) a \<noteq> None"
  shows "a < cap \<and> (\<exists>img wo. job = FlashJob img wo)"
proof -
  from plan_writes_only_flash [OF assms(2,4)] obtain img wo where j: "job = FlashJob img wo" .
  with assms(2) have p: "plan info (FlashJob img wo) opts = Inr sts" by simp
  let ?n = "erase_blocks_for (length img)"
  from flash_plan [OF p] assms(3) have "length img \<le> cap" and n: "?n \<le> 255" by metis+
  moreover have "cap = 8192" using parse_status_fields(2) [OF assms(1,3)] .
  ultimately have "?n * ERASE_BLOCK \<le> cap" by (simp add: erase_blocks_for_eq ERASE_BLOCK_def)
  moreover from flash_plan_region [OF p] assms(4) have "a < ?n * ERASE_BLOCK" by blast
  ultimately show ?thesis using j by auto
qed

lemma in_write_steps:
  assumes "st \<in> set (write_steps opts img n)" and "n \<le> 255"
  obtains i c where "st = write_step opts (n * ERASE_BLOCK div WRITE_BLOCK) i c"
    and "length c = 128" and "i < 510"
proof -
  let ?cs = "slice_chunks WRITE_BLOCK (resize (n * ERASE_BLOCK) 0xFF img)"
  from assms(1) obtain i c where st: "st = write_step opts (n * ERASE_BLOCK div WRITE_BLOCK) i c"
    and ic: "(i, c) \<in> set (enumerate 0 ?cs)" by (auto simp: write_steps_def Let_def)
  from ic have "i < length ?cs" and "c \<in> set ?cs" by (auto simp: in_set_enumerate_eq)
  then show ?thesis using that [OF st] write_chunks(1,2) [of n img] assms(2) by auto
qed

lemma write_step_request:
  assumes "length c = 128" and "i < 510"
  shows "write_request (frame (write_step opts k i c)) = Some (i * 128, c)"
  using write_request_block [OF assms(1), of i] assms(2)
  by (simp add: block_frame_def WRITE_BLOCK_def)

lemma write_request_cmd: "write_request f \<noteq> None \<Longrightarrow> cmd f = CMD_WRITE"
  by (simp add: write_request_def Let_def split: if_splits)

lemma step_write_addr [simp]:
  "write_addr (baud_probe_step opts r) = None" "write_addr (baud_commit_step opts r) = None"
  "write_addr (link_test_step info opts i) = None" "write_addr (erase_step opts n) = None"
  "write_addr (write_step opts k i c) = Some (of_nat (i * WRITE_BLOCK))"
  "write_addr (options_step info opts) = None" "write_addr (run_step opts) = None"
  by (simp_all add: step_builders write_step_def Let_def)

text \<open>The steps of a plan, one constructor at a time.\<close>

lemma plan_step_cases:
  assumes "plan info job opts = Inr sts" and "st \<in> set sts"
  obtains (other) "cmd (frame st) \<noteq> CMD_WRITE" "phase st \<noteq> Write" "write_addr st = None"
  | (block) k i c where "st = write_step opts k i c" "length c = 128" "i < 510"
  using assms(1)
proof (cases rule: plan_cases)
  case 1
  with assms(2) show ?thesis by (intro other) (auto simp: run_frame_def stc89_commands)
next
  case (2 reload n)
  from 2(6) assms(2) consider "st \<in> set (prologue info opts reload)" | "st = erase_step opts n"
    | "st \<in> set (flash_steps info opts n job)" | "st = run_step opts" by auto
  then show ?thesis
  proof cases
    case 3
    then obtain img wo where j: "job = FlashJob img wo" by (cases job) auto
    show ?thesis
    proof (cases "st \<in> set (write_steps opts img n)")
      case True
      from in_write_steps [OF True 2(5)] block show ?thesis by metis
    next
      case False
      with 3 j have "st = options_step info opts" by (auto split: if_splits)
      then show ?thesis by (intro other) (simp_all add: options_frame_def stc89_commands)
    qed
  qed (auto intro!: other simp: frame_builders stc89_commands dest!: in_prologue)
qed

text \<open>
  C27: A write step and its frame agree. Every step of a plan that carries a write
  frame writes one 128-byte block at a block boundary, names that address, and waits for
  the acknowledgement that is the sum of exactly the bytes it sends; every other
  step names no address and is not in the write phase.
\<close>

theorem write_steps_are_consistent:
  assumes "plan info job opts = Inr sts" and "st \<in> set sts"
  shows "case write_request (frame st) of
      Some (base, d) \<Rightarrow> phase st = Write \<and> write_addr st = Some (of_nat base) \<and> length d = 128
        \<and> 128 dvd base \<and> base < 65536 \<and> expect st = BlockAck (block_ack d)
    | None \<Rightarrow> phase st \<noteq> Write \<and> write_addr st = None"
  using assms
proof (cases rule: plan_step_cases)
  case other
  then have "write_request (frame st) = None" using write_request_cmd by blast
  with other show ?thesis by simp
next
  case (block k i c)
  then show ?thesis by (simp add: write_step_request WRITE_BLOCK_def del: step_frame)
qed

theorem write_steps_are_consistent_witness:
  "\<exists>sts st. plan sample_info (FlashJob [1, 2] False) session_options_default = Inr sts
     \<and> st \<in> set sts \<and> phase st = Write \<and> write_request (frame st) \<noteq> None"
proof -
  obtain sts where p: "plan sample_info (FlashJob [1, 2] False) session_options_default = Inr sts"
    using sample_plan [of "[1, 2]" False] by auto
  from flash_plan_written [OF p, of 0] obtain y where "written (map frame sts) 0 = Some y" by auto
  then have "\<exists>f \<in> set (map frame sts). write_request f \<noteq> None"
    by (induction "map frame sts" arbitrary: sts) (auto split: option.splits if_splits)
  then obtain st where st: "st \<in> set sts" "write_request (frame st) \<noteq> None" by auto
  with write_steps_are_consistent [OF p st(1)] p show ?thesis by (auto split: option.splits)
qed

end
