(* ===== verification/Stc89_Link.thy ===== *)
theory Stc89_Link imports Stc89_Safety Receiver begin

text \<open>
  A plan on the wire: the order of its phases, the line rate of every exchange, the
  size of its frames, the clocks at which the default transfer baud exists, and the
  session that carries it out.
\<close>

section \<open>Phases\<close>

lemma prologue_phases:
  "map phase (prologue info opts r) = [BaudProbe, BaudCommit, LinkTest, LinkTest, LinkTest, LinkTest]"
  by (simp add: prologue_def LINK_TEST_REPEATS_def upt_rec)

lemma write_steps_phases: "map phase (write_steps opts img n) = replicate (2 * n) Write"
proof -
  have "map phase (map (\<lambda>(i, c). write_step opts k i c) ics) = replicate (length ics) Write" for ics k
    by (induction ics) auto
  then show ?thesis by (simp only: write_steps_def Let_def length_enumerate write_chunks(1))
qed

text \<open>
  C28: The phases of a plan, in full. An identify job is the one run frame. Every
  other plan negotiates the baud, tests the link four times and erases before
  anything else; a flash then writes two blocks per erased 256 bytes and may send
  the options; the run frame comes last, and in no plan anywhere else.
\<close>

theorem plan_phase_sequence:
  assumes "plan info job opts = Inr sts"
  shows "map phase sts =
    (case job of
       Identify \<Rightarrow> [Run]
     | EraseJob _ \<Rightarrow> [BaudProbe, BaudCommit] @ replicate 4 LinkTest @ [Erase, Run]
     | FlashJob img wo \<Rightarrow> [BaudProbe, BaudCommit] @ replicate 4 LinkTest @ [Erase]
         @ replicate (2 * erase_blocks_for (length img)) Write @ (if wo then [Options] else []) @ [Run])"
  using assms
  by (cases rule: plan_cases)
    (auto simp: prologue_phases write_steps_phases eval_nat_numeral dest!: erase_blocks_Flash
       split: job.splits)

theorem plan_phase_sequence_witness:
  "\<exists>sts. plan sample_info (FlashJob [0x80] True) session_options_default = Inr sts
     \<and> map phase sts = [BaudProbe, BaudCommit, LinkTest, LinkTest, LinkTest, LinkTest, Erase,
         Write, Write, Write, Write, Options, Run]"
proof -
  obtain sts where p: "plan sample_info (FlashJob [0x80] True) session_options_default = Inr sts"
    using sample_plan [of "[0x80]" True] by auto
  from plan_phase_sequence [OF p] p show ?thesis
    by (simp add: erase_blocks_for_eq) (simp add: eval_nat_numeral)
qed

section \<open>Line rates\<close>

text \<open>
  The rate at which each step's frame is sent and its answer read, for a port that
  is first at rate \<open>b\<close>: \<open>retune_before_send\<close> applies before the frame goes out and
  \<open>retune_after_send\<close> before the answer is read, and a rate stays until the next change.
\<close>

fun line_rates :: "u32 \<Rightarrow> step list \<Rightarrow> (u32 \<times> u32) list" where
  "line_rates b [] = []"
| "line_rates b (st # sts) =
     (let s = (case retune_before_send st of Some r \<Rightarrow> r | None \<Rightarrow> b);
          a = (case retune_after_send st of Some r \<Rightarrow> r | None \<Rightarrow> s)
      in (s, a) # line_rates a sts)"

definition untuned :: "step \<Rightarrow> bool" where
  "untuned st \<longleftrightarrow> retune_before_send st = None \<and> retune_after_send st = None"

lemma line_rates_untuned: "\<forall>st \<in> set sts. untuned st \<Longrightarrow> line_rates b sts = replicate (length sts) (b, b)"
  by (induction sts) (auto simp: untuned_def)

lemma step_untuned [simp]:
  "untuned (link_test_step info opts i)" "untuned (erase_step opts n)" "untuned (write_step opts k i c)"
  "untuned (options_step info opts)" "untuned (run_step opts)"
  by (simp_all add: untuned_def step_builders write_step_def Let_def)

lemma step_retunes [simp]:
  "retune_before_send (baud_probe_step opts r) = None"
  "retune_after_send (baud_probe_step opts r) = Some (transfer_baud opts)"
  "retune_before_send (baud_commit_step opts r) = Some (handshake_baud opts)"
  "retune_after_send (baud_commit_step opts r) = Some (transfer_baud opts)"
  by (simp_all add: step_builders)

text \<open>
  The baud discipline. Starting at the handshake baud, the probe and the
  commit frame are both sent at the handshake baud and answered at the transfer baud, and every
  later frame is sent and answered at the transfer baud; an identify job never
  leaves the rate it starts at.
\<close>

lemma plan_line_rates:
  assumes "plan info job opts = Inr sts"
  shows "line_rates (handshake_baud opts) sts =
    (if job = Identify then [(handshake_baud opts, handshake_baud opts)]
     else replicate 2 (handshake_baud opts, transfer_baud opts)
       @ replicate (length sts - 2) (transfer_baud opts, transfer_baud opts))"
  using assms
proof (cases rule: plan_cases)
  case 1
  then show ?thesis using line_rates_untuned [of sts] by simp
next
  case (2 reload n)
  define rest where "rest = map (link_test_step info opts) [0..<LINK_TEST_REPEATS]
    @ erase_step opts n # flash_steps info opts n job @ [run_step opts]"
  have "\<forall>st \<in> set rest. untuned st" by (auto simp: rest_def dest!: in_flash_steps)
  then have r: "line_rates (transfer_baud opts) rest =
      replicate (length rest) (transfer_baud opts, transfer_baud opts)"
    by (rule line_rates_untuned)
  have "sts = baud_probe_step opts reload # baud_commit_step opts reload # rest"
    using 2 by (simp add: prologue_def rest_def)
  with r 2(1) show ?thesis
    by (simp add: Let_def eval_nat_numeral)
qed

section \<open>The default baud\<close>

text \<open>
  Which chips the default transfer baud reaches. After a parsed status
  packet a plan at 115200 baud has a timer reload exactly when the measured clock is at
  least 1843200 Hz; slower chips are refused with the error of an unreachable baud,
  whatever the job other than identify.
\<close>

lemma default_baud_reachable_iff:
  assumes "parse_status f b = Inr info" and "transfer_baud opts = 115200" and "job \<noteq> Identify"
  shows "(\<exists>k. plan info job opts = Inl (UnreachableBaud 115200 k)) \<longleftrightarrow> unat (measured_hz info) < 1843200"
proof -
  note hz = parse_status_fields(3,4) [OF assms(1)]
  have m: "unat (measured_hz info) < 2 ^ 63" using hz(1) by simp
  have t: "ticks_of (measured_hz info) 115200 \<le> 255"
    using div_le_mono [OF add_right_mono [OF hz(1)], of 1843200 3686400] by (simp add: ticks_of_def)
  have z: "ticks_of (measured_hz info) 115200 = 0 \<longleftrightarrow> unat (measured_hz info) < 1843200"
    by (simp add: ticks_of_def div_eq_0_iff)
  from timer_reload_ticks [OF m, of 115200] t
  have r: "timer_reload (measured_hz info) 115200 =
      (if ticks_of (measured_hz info) 115200 = 0
       then Inl (UnreachableBaud 115200 256) else Inr (of_int (256 - int (ticks_of (measured_hz info) 115200))))"
    by (auto simp: Suc_le_eq)
  have "erase_blocks info job \<noteq> Some (Inl (UnreachableBaud 115200 k))" for k
    by (auto simp: erase_blocks_def split: job.splits option.splits if_splits)
  then show ?thesis unfolding plan_work_error [OF assms(3)] assms(2) r z by auto
qed

section \<open>Frames the receiver can read\<close>

text \<open>
  Every frame of a plan made from a parsed status packet fits the receiver's
  bounds: its LEN field is between 6 and 1024 and equals its length less two, so a
  receiver fed with the frame returns it.
\<close>

lemma planned_frames_receivable:
  assumes "parse_status f b = Inr info" and "plan info job opts = Inr sts" and "st \<in> set sts"
  shows "receivable (frame st) \<and> next_frame (feed (encode (frame st)) receiver_new)
    = (Some (Inr (frame st)), receiver_new)"
proof -
  have o': "length (option_bytes info) = 1" using parse_status_fields(1) [OF assms(1)] by simp
  have c: "length (chip_id info) = 2"
    using assms(1) by (simp add: parse_status_iff status_info_def Let_def)
  have "length (payload (frame st)) \<le> 1018"
    using assms(2,3)
  proof (cases rule: plan_step_cases)
    case (block k i c)
    then show ?thesis by (simp add: write_frame_def)
  next
    case other
    from assms(2) show ?thesis
    proof (cases rule: plan_cases)
      case 1
      with assms(3) show ?thesis by (simp add: run_frame_def)
    next
      case (2 reload n)
      with assms(3) other show ?thesis
        by (auto simp: frame_builders reload_field_eq BAUD_CONSTS_def LINK_TEST_PREFIX_def
            ERASE_FILL_def OPTIONS_TAIL_def o' c dest!: in_prologue in_flash_steps)
    qed
  qed
  then have r: "receivable (frame st)" by (simp add: receivable_def)
  from next_frame_noise [of "[]", OF _ r, of "[]" "[]"] r show ?thesis
    by (simp add: feed_def receiver_new_def)
qed

section \<open>Well-formed steps\<close>

text \<open>
  The invariant of \<open>Step\<close> the rest of the program relies on, kind by kind: a host frame the receiver
  could read, with the command of its phase, the patience and the two changes of rate of the phase,
  the reply it expects, and on a write the address that its frame carries.
\<close>

definition well_formed_step :: "session_options \<Rightarrow> step \<Rightarrow> bool" where
  "well_formed_step opts st \<longleftrightarrow>
     dir (frame st) = HostToMcu \<and> length (payload (frame st)) \<le> 1018
     \<and> timeout_ms st = (if phase st = Erase then erase_timeout_ms opts else reply_timeout_ms opts)
     \<and> retune_before_send st = (if phase st = BaudCommit then Some (handshake_baud opts) else None)
     \<and> retune_after_send st = (if phase st \<in> {BaudProbe, BaudCommit} then Some (transfer_baud opts) else None)
     \<and> write_addr st =
         (let p = payload (frame st) in if phase st = Write then Some (from_be32 (p ! 0) (p ! 1) (p ! 2) (p ! 3)) else None)
     \<and> (case phase st of
          Sync \<Rightarrow> False
        | Status \<Rightarrow> False
        | BaudProbe \<Rightarrow> cmd (frame st) = CMD_BAUD_PROBE \<and> expect st = Echo
        | BaudCommit \<Rightarrow> cmd (frame st) = CMD_BAUD_COMMIT \<and> expect st = Echo
        | LinkTest \<Rightarrow> cmd (frame st) = CMD_LINK_TEST \<and> expect st = Ack REPLY_ACK []
        | Erase \<Rightarrow> cmd (frame st) = CMD_ERASE \<and> expect st = AckLen REPLY_ACK 7
        | Write \<Rightarrow> cmd (frame st) = CMD_WRITE \<and> expect st = BlockAck (block_ack (drop 6 (payload (frame st))))
        | Options \<Rightarrow> cmd (frame st) = CMD_OPTIONS \<and> expect st = Echo
        | Run \<Rightarrow> cmd (frame st) = CMD_RUN \<and> expect st = Nothing)"



section \<open>The session of a plan\<close>

text \<open>
  A session over a plan sends every frame and has every frame but the last
  answered. An exchange runs to its end exactly when the bytes sent are the encodings of
  the planned frames, in order, and the replies received pass, one for one, the
  checks of all steps but the final run step, which nobody answers.
\<close>

lemma plan_session_complete:
  assumes "plan info job opts = Inr sts"
  shows "(\<exists>s'. conversation next_action on_reply (session_new sts) tx rx s') \<longleftrightarrow>
    tx = map (\<lambda>st. encode (frame st)) sts \<and> list_all2 reply_fits (butlast sts) rx"
  using assms by (rule stc89_family.plan_conversation)

end
