(* ===== verification/Cli_Session.thy ===== *)
theory Cli_Session imports Cli Driver_Chip Stc89_Link begin

text \<open>
  A whole session as the command line runs it, on any wire: what it leaves on the wire, for
  each job and however it ends. The frames sent are a prefix of those of a plan made from
  a status packet the wire delivered, so what holds of every prefix of every plan holds
  of the session.
\<close>

section \<open>The session on the tape\<close>

lemma drive_session_tape:
  assumes "drive_session W a job w = Some (res, out, w')"
  obtains tape where "drive_session (taped W) a job (w, []) = Some (res, out, (w', tape))"
proof -
  let ?hs = "\<lambda>W. handshake W is_status_frame parse_status (session_opts a) (wait_time a) []"
  from assms obtain ex log w1 where hs: "?hs W w = Some (ex, log, w1)"
    by (cases "?hs W w") (auto simp: drive_session_def Let_def)
  from tape_handshake [OF hs] obtain tape1 where hst: "?hs (taped W) (w, []) = Some (ex, log, (w1, tape1))" .
  obtain out1 noise where l: "cli_logs (quiet a) log 0 = (out1, noise)" by (cases "cli_logs (quiet a) log 0")
  show thesis
  proof (cases "\<exists>info sts. ex = Done info \<and> plan info job (session_opts a) = Inr sts")
    case False
    with assms hs hst l that show thesis
      by (cases ex) (auto simp: drive_session_def Let_def split: sum.splits)
  next
    case True
    then obtain info sts where d: "ex = Done info" "plan info job (session_opts a) = Inr sts" by blast
    let ?run = "\<lambda>W. run_loop W (drain_args a) receiver_new (session_new sts) []"
    from assms hs l d obtain ex2 s2 log2 w2 where r: "?run W w1 = Some (ex2, s2, log2, w2)"
      by (cases "?run W w1") (auto simp: drive_session_def Let_def run_def)
    from tape_run_loop [OF r, rule_format, of tape1] obtain tape2 where
      "?run (taped W) (w1, tape1) = Some (ex2, s2, log2, (w2, tape2))" by auto
    with assms hs hst l d r that show thesis
      by (cases ex2) (auto simp: drive_session_def Let_def run_def)
  qed
qed

lemma sent_at_steps:
  "sent_at r (concat (map (step_events cfg) sts)) = zip (map fst (line_rates r sts)) (map frame sts)"
  by (induction sts arbitrary: r) (auto simp: step_events_rates Let_def split: option.splits)

text \<open>
  The status packet a session read, and what it made of it: the one frame its handshake logged as the reply,
  and the target its handshake returned, which is the one the frame parses to. Both are unique.
\<close>

definition status_read :: "'w wire \<Rightarrow> args \<Rightarrow> 'w \<Rightarrow> frame \<Rightarrow> target_info \<Rightarrow> bool" where
  "status_read W a w f info \<longleftrightarrow>
     parse_status f (arg_handshake_baud a) = Inr info
     \<and> (\<exists>log w1. handshake W is_status_frame parse_status (session_opts a) (wait_time a) [] w
            = Some (Done info, log, w1) \<and> replies log = [f])"

lemma status_read_unique:
  "status_read W a w f info \<Longrightarrow> status_read W a w f' info' \<Longrightarrow> f' = f \<and> info' = info"
  by (auto simp: status_read_def)

lemma status_read_parsed: "status_read W a w f info \<Longrightarrow> parse_status f (arg_handshake_baud a) = Inr info"
  by (simp add: status_read_def)

lemma status_readI:
  assumes "handshake (taped W) is_status_frame parse_status (session_opts a) (wait_time a) [] (w, [])
      = Some (Done info, log, (w1, tape))"
  obtains f where "is_status_frame f" "status_read (taped W) a (w, []) f info"
proof -
  have hb: "handshake_baud (session_opts a) = arg_handshake_baud a" by (simp add: session_opts_def)
  from handshake_taped(2) [OF assms] obtain f where "is_status_frame f" "replies log = [f]"
    "parse_status f (arg_handshake_baud a) = Inr info"
    by (auto simp: status_outcome_iff hb)
  with assms that show thesis by (auto simp: status_read_def)
qed

text \<open>How a session ends, and the frames it sent by then.\<close>

lemma drive_session_cases:
  assumes "drive_session (taped W) a job (w, []) = Some (res, out, (w', tape))"
  obtains (silent) "sent_at (arg_handshake_baud a) tape = []" "res \<noteq> Success"
  | (planned) f info sts where "is_status_frame f" "parse_status f (arg_handshake_baud a) = Inr info"
      "plan info job (session_opts a) = Inr sts"
      "prefix (sent_at (arg_handshake_baud a) tape)
         (zip (map fst (line_rates (arg_handshake_baud a) sts)) (map frame sts))"
      "res = Success \<Longrightarrow> sent_at (arg_handshake_baud a) tape =
         zip (map fst (line_rates (arg_handshake_baud a) sts)) (map frame sts)"
      "status_read (taped W) a (w, []) f info" "TargetLines info (arg_handshake_baud a) \<in> set out"
proof -
  let ?hs = "handshake (taped W) is_status_frame parse_status (session_opts a) (wait_time a) [] (w, [])"
  have hb: "handshake_baud (session_opts a) = arg_handshake_baud a" by (simp add: session_opts_def)
  from assms obtain ex log w1 tape1 where hs: "?hs = Some (ex, log, (w1, tape1))"
    by (cases ?hs) (auto simp: drive_session_def Let_def)
  note t = handshake_tape [OF hs, unfolded hb]
  obtain out1 noise where l: "cli_logs (quiet a) log 0 = (out1, noise)" by (cases "cli_logs (quiet a) log 0")
  show thesis
  proof (cases "\<exists>info sts. ex = Done info \<and> plan info job (session_opts a) = Inr sts")
    case False
    with assms hs l have "tape = tape1" "res \<noteq> Success"
      by (cases ex; auto simp: drive_session_def Let_def split: sum.splits)+
    with t(1) show thesis by (intro silent) auto
  next
    case True
    then obtain info sts where d: "ex = Done info" "plan info job (session_opts a) = Inr sts" by blast
    let ?run = "run (taped W) (session_new sts) (drain_args a) [] (w1, tape1)"
    from assms hs l d obtain ex2 s2 log2 where r: "?run = Some (ex2, s2, log2, (w', tape))"
      and res: "res = Success \<Longrightarrow> \<exists>u. ex2 = Done u"
      by (cases ?run) (auto simp: drive_session_def Let_def split: outcome.splits)
    have p: "prefix (commands tape) (commands tape1 @ concat (map (step_events (drain_args a)) sts))"
      "res = Success \<Longrightarrow> commands tape = commands tape1 @ concat (map (step_events (drain_args a)) sts)"
      using run_taped_prefix [OF r] run_taped [OF r] res by (auto simp: run_result_def)
    let ?b = "arg_handshake_baud a"
    have e: "sent_at ?b (commands tape1 @ concat (map (step_events (drain_args a)) sts))
        = zip (map fst (line_rates ?b sts)) (map frame sts)"
      by (simp add: t sent_at_steps)
    obtain f where f: "is_status_frame f" "status_read (taped W) a (w, []) f info"
      by (rule status_readI [OF hs [unfolded d(1)]])
    have t: "TargetLines info ?b \<in> set out"
      using assms hs l d r by (cases ex2) (auto simp: drive_session_def Let_def hb)
    show thesis
    proof (rule planned [OF f(1) status_read_parsed [OF f(2)] d(2) _ _ f(2) t])
      from sent_at_prefix [OF p(1), of ?b]
      show "prefix (sent_at ?b tape) (zip (map fst (line_rates ?b sts)) (map frame sts))"
        unfolding e by simp
      show "sent_at ?b tape = zip (map fst (line_rates ?b sts)) (map frame sts)" if "res = Success"
        using arg_cong [OF p(2) [OF that], of "sent_at ?b"] unfolding e by simp
    qed
  qed
qed


definition session_frames :: "args \<Rightarrow> wire_event list \<Rightarrow> frame list" where
  "session_frames a tape = map snd (sent_at (arg_handshake_baud a) tape)"

lemma length_line_rates [simp]: "length (line_rates r sts) = length sts"
  by (induction sts arbitrary: r) (simp_all add: Let_def)

lemma session_frames_cases:
  assumes "drive_session (taped W) a job (w, []) = Some (res, out, (w', tape))"
  obtains (silent) "session_frames a tape = []" "res \<noteq> Success"
  | (planned) f info sts rest where "parse_status f (arg_handshake_baud a) = Inr info"
      "plan info job (session_opts a) = Inr sts" "map frame sts = session_frames a tape @ rest"
      "res = Success \<Longrightarrow> rest = []"
      "status_read (taped W) a (w, []) f info" "TargetLines info (arg_handshake_baud a) \<in> set out"
  using assms
proof (cases rule: drive_session_cases)
  case silent
  then show ?thesis by (intro that(1)) (simp_all add: session_frames_def)
next
  case (planned f info sts)
  let ?all = "zip (map fst (line_rates (arg_handshake_baud a) sts)) (map frame sts)"
  have "map snd ?all = map frame sts" by simp
  moreover from planned(4) obtain rest where "?all = sent_at (arg_handshake_baud a) tape @ rest"
    by (auto elim!: prefixE)
  ultimately have "map frame sts = session_frames a tape @ map snd rest"
    unfolding session_frames_def by (metis map_append)
  moreover have "map snd rest = []" if "res = Success"
    using planned(5) [OF that] \<open>?all = _ @ rest\<close> by simp
  ultimately show ?thesis using planned(2,3,6,7) that(2) by blast
qed

text \<open>The rate each frame of a plan is sent at.\<close>

lemma plan_frame_rates:
  assumes "plan info job opts = Inr sts"
    and "(r, f) \<in> set (zip (map fst (line_rates (handshake_baud opts) sts)) (map frame sts))"
  shows "r = (if job = Identify \<or> cmd f \<in> {CMD_BAUD_PROBE, CMD_BAUD_COMMIT} then handshake_baud opts
              else transfer_baud opts)"
  using assms(1)
proof (cases rule: plan_cases)
  case 1
  with assms(2) plan_line_rates [OF assms(1)] show ?thesis by simp
next
  case (2 reload n)
  define rest where "rest = map (link_test_step info opts) [0..<LINK_TEST_REPEATS]
    @ erase_step opts n # flash_steps info opts n job @ [run_step opts]"
  have sts: "sts = baud_probe_step opts reload # baud_commit_step opts reload # rest"
    using 2 by (simp add: prologue_def rest_def)
  have "\<forall>st \<in> set rest. untuned st" by (auto simp: rest_def dest!: in_flash_steps)
  then have l: "line_rates (transfer_baud opts) rest = replicate (length rest) (transfer_baud opts, transfer_baud opts)"
    by (rule line_rates_untuned)
  have c: "\<forall>st \<in> set rest. cmd (frame st) \<notin> {CMD_BAUD_PROBE, CMD_BAUD_COMMIT}"
    by (auto simp: rest_def frame_builders stc89_commands dest!: in_flash_steps)
  from assms(2) consider "r = handshake_baud opts" "f = baud_probe_frame reload \<or> f = baud_commit_frame reload"
    | "r = transfer_baud opts" "f \<in> frame ` set rest"
    unfolding sts by (auto simp: Let_def l zip_replicate1)
  then show ?thesis using c 2(1) by cases (auto simp: frame_builders)
qed

text \<open>Only the last step of a plan carries the run frame.\<close>

lemma plan_frames_last:
  assumes "plan info job opts = Inr sts"
  shows "\<exists>pre. sts = pre @ [run_step opts] \<and> (\<forall>t \<in> set pre. expect t \<noteq> Nothing \<and> frame t \<noteq> run_frame)"
proof -
  from assms show ?thesis
  proof (cases rule: plan_cases)
    case 1
    then show ?thesis by (intro exI [of _ "[]"]) simp
  next
    case (2 reload n)
    then show ?thesis
      by (intro exI [of _ "prologue info opts reload @ erase_step opts n # flash_steps info opts n job"])
        (auto simp: frame_builders stc89_commands frame_host_def dest!: in_prologue in_flash_steps)
  qed
qed

lemma write_in_step_events: "WriteEvt bs \<in> set (step_events cfg st) \<longleftrightarrow> bs = encode (frame st)"
  by (auto simp: step_events_def send_events_def retune_events_def split: option.splits if_splits)

lemma reply_fits_block:
  assumes "reply_fits st f" and "expect st = BlockAck want"
  shows "cmd f = REPLY_ACK \<and> payload f = [want]"
proof -
  from assms have "cmd f = REPLY_ACK" "length (payload f) = 1" "payload f ! 0 = want"
    by (auto simp: reply_fits_def check_reply_def split: if_splits)
  then show ?thesis by (cases "payload f") auto
qed

section \<open>The writes of a session\<close>

lemma slice_chunks_nth:
  "i < length (slice_chunks n xs) \<Longrightarrow> slice_chunks n xs ! i = take n (drop (i * n) xs)"
proof (induction n xs arbitrary: i rule: slice_chunks.induct)
  case (1 n xs)
  show ?case
  proof (cases "xs = [] \<or> n = 0")
    case True
    with "1.prems" show ?thesis by (simp add: slice_chunks.simps)
  next
    case False
    then have s: "slice_chunks n xs = take n xs # slice_chunks n (drop n xs)"
      by (simp add: slice_chunks.simps [of n xs])
    show ?thesis
    proof (cases i)
      case (Suc j)
      with "1.prems" s have "j < length (slice_chunks n (drop n xs))" by simp
      from "1.IH" [OF False this] s Suc show ?thesis by (simp add: add.commute)
    qed (simp add: s)
  qed
qed

lemma written_request:
  "written fs x = Some b \<Longrightarrow>
     \<exists>f \<in> set fs. \<exists>lo d. write_request f = Some (lo, d) \<and> lo \<le> x \<and> x < lo + length d \<and> d ! (x - lo) = b"
  by (induction fs) (auto split: option.splits if_splits)

text \<open>Each write frame of a flashing plan carries the padded image at its address.\<close>

lemma flash_plan_request:
  assumes "plan info (FlashJob img wo) opts = Inr sts" and "f \<in> set (map frame sts)"
    and "write_request f = Some (lo, d)" and "k < length d"
  shows "d ! k = (if lo + k < length img then img ! (lo + k) else 0xFF)"
    and "lo + k < erase_blocks_for (length img) * ERASE_BLOCK"
proof -
  let ?n = "erase_blocks_for (length img)"
  let ?pad = "resize (?n * ERASE_BLOCK) 0xFF img"
  let ?cs = "slice_chunks WRITE_BLOCK ?pad"
  from flash_plan [OF assms(1)] obtain reload where
    sts: "sts = prologue info opts reload @ erase_step opts ?n # write_steps opts img ?n @
      (if wo then [options_step info opts] else []) @ [run_step opts]" and n: "?n \<le> 255" by metis
  have c: "cmd f = CMD_WRITE" using write_request_cmd assms(3) by blast
  have "f \<in> set (map frame (write_steps opts img ?n))"
    using assms(2) c prologue_cmd [of f info opts reload] tail_cmd [of f wo info opts]
    by (auto simp: sts erase_frame_def stc89_commands split: if_splits)
  then obtain i where i: "i < length ?cs" and f: "f = block_frame i (?cs ! i)"
    by (auto simp: write_steps_frames in_set_enumerate_eq)
  note w = write_chunks [of ?n img]
  have "length (?cs ! i) = 128" and "i < 2 * ?n" using i w(1,2) by auto
  with write_request_block [of "?cs ! i" i] n f assms(3)
  have bd: "lo = i * 128" "d = ?cs ! i" "length d = 128" by auto
  have d: "d = take 128 (drop (i * 128) ?pad)"
    using slice_chunks_nth [OF i] by (simp add: bd(2) WRITE_BLOCK_def)
  from \<open>i < 2 * ?n\<close> show lt: "lo + k < ?n * ERASE_BLOCK"
    using assms(4) bd by (simp add: ERASE_BLOCK_def)
  have "i * 128 + k < length ?pad" using lt bd(1) by simp
  then have "take 128 (drop (i * 128) ?pad) ! k = ?pad ! (i * 128 + k)" using assms(4) bd(3) by simp
  then have "d ! k = ?pad ! (lo + k)" unfolding d bd(1) .
  then show "d ! k = (if lo + k < length img then img ! (lo + k) else 0xFF)"
    using lt by (simp add: nth_resize)
qed

lemma session_success_written:
  assumes "drive_session (taped W) a (FlashJob img wo) (w, []) = Some (Success, out, (w', tape))"
  shows "written (session_frames a tape) x =
    (if x < length img then Some (img ! x)
     else if x < erase_blocks_for (length img) * ERASE_BLOCK then Some 0xFF else None)"
  using assms
proof (cases rule: session_frames_cases)
  case (planned f info sts rest)
  then have "session_frames a tape = map frame sts" by simp
  with flash_plan_written [OF planned(2)] show ?thesis by simp
qed simp

text \<open>What any part of a flashing plan writes, it writes behind the erase frame.\<close>

lemma flash_prefix_erased:
  assumes "plan info (FlashJob img wo) opts = Inr sts" and "map frame sts = fs @ rest"
    and "written fs x \<noteq> None"
  obtains pre n post where "fs = pre @ erase_frame n # post" "\<forall>f \<in> set pre. cmd f \<noteq> CMD_WRITE"
    "unat n = erase_blocks_for (length img)"
proof -
  let ?n = "erase_blocks_for (length img)"
  from flash_plan [OF assms(1)] obtain reload where
    sts: "sts = prologue info opts reload @ erase_step opts ?n # write_steps opts img ?n @
      (if wo then [options_step info opts] else []) @ [run_step opts]" and n: "?n \<le> 255" by metis
  let ?pre = "map frame (prologue info opts reload)"
  let ?e = "erase_frame (of_nat ?n)"
  have pre: "\<forall>f \<in> set (?pre @ [?e]). cmd f \<noteq> CMD_WRITE"
    using prologue_cmd [of _ info opts reload] by (auto simp: erase_frame_def stc89_commands)
  have u: "unat (of_nat ?n :: u8) = ?n" using n by (simp add: unsigned_of_nat take_bit_nat_eq_self)
  have "fs @ rest = (?pre @ [?e]) @ map frame (write_steps opts img ?n @
      (if wo then [options_step info opts] else []) @ [run_step opts])"
    unfolding assms(2) [symmetric] sts by simp
  from iffD1 [OF append_eq_append_conv2 this] consider us where "fs @ us = ?pre @ [?e]"
    | us where "fs = (?pre @ [?e]) @ us" by metis
  then show thesis
  proof cases
    case 1
    then have "set fs \<subseteq> set (?pre @ [?e])" by (metis Un_upper1 set_append)
    with pre written_none [of fs x] assms(3) show thesis by blast
  next
    case 2
    with pre u that [of ?pre "of_nat ?n" us] show thesis by auto
  qed
qed


section \<open>The end of a session\<close>

lemma drive_session_returns:
  assumes "timely W clk" and "bounded_reads W"
  shows "\<exists>res out w'. drive_session W a job w = Some (res, out, w') \<and> res \<noteq> Aborted"
proof -
  let ?hs = "handshake W is_status_frame parse_status (session_opts a) (wait_time a) [] w"
  obtain ex log w1 where hs: "?hs = Some (ex, log, w1)"
    using handshake_total [OF assms(1)] by (metis prod_cases3)
  have ex: "ex \<noteq> Panicked"
  proof -
    from tape_handshake [OF hs] obtain tape where
      "handshake (taped W) is_status_frame parse_status (session_opts a) (wait_time a) [] (w, [])
        = Some (ex, log, (w1, tape))" .
    from handshake_taped(2) [OF this] assms(2) show ?thesis by (auto simp: status_outcome_iff)
  qed
  have run: "\<exists>ex2 s2 log2 w2. run W (session_new sts) cfg [] w1 = Some (ex2, s2, log2, w2) \<and> ex2 \<noteq> Panicked"
    for sts cfg
  proof -
    obtain ex2 s2 log2 w2 where r: "run W (session_new sts) cfg [] w1 = Some (ex2, s2, log2, w2)"
      using run_loop_returns [OF assms(1) session_inv_new session_new_idle, of cfg receiver_new sts "[]" w1]
      unfolding run_def by (metis prod_cases4)
    from tape_run [OF r] obtain tape where
      t: "run (taped W) (session_new sts) cfg [] (w1, []) = Some (ex2, s2, log2, (w2, tape))" .
    from run_taped [OF t] assms(2) r show ?thesis by (auto simp: run_result_def)
  qed
  show ?thesis
  proof (cases ex)
    case (Done info)
    show ?thesis
    proof (cases "plan info job (session_opts a)")
      case (Inr sts)
      from run [of sts "drain_args a"] obtain ex2 s2 log2 w2 where
        "run W (session_new sts) (drain_args a) [] w1 = Some (ex2, s2, log2, w2)" "ex2 \<noteq> Panicked" by blast
      with hs Done Inr show ?thesis
        by (cases ex2) (auto simp: drive_session_def Let_def split: prod.splits)
    qed (use hs Done in \<open>auto simp: drive_session_def Let_def split: prod.splits\<close>)
  qed (use hs ex in \<open>auto simp: drive_session_def Let_def split: prod.splits\<close>)
qed

lemma cmd_session_returns:
  assumes "orderly_port (serial X) clk"
  shows "\<exists>res out w'. cmd_session X a job w = Some (res, out, w') \<and> res \<noteq> Aborted"
proof -
  have s: "\<exists>res out s'. drive_session (wire_impl (target X) (serial X)) a job s = Some (res, out, s')
      \<and> res \<noteq> Aborted" for s
    using drive_session_returns [OF serial_timely [OF assms] serial_bounded [OF assms]] .
  show ?thesis
  proof (cases "arg_port a")
    case (Some path)
    show ?thesis
    proof (cases "serial_open (target X) (serial X) path (handshake_baud (session_opts a))
        (if parity_even a then EvenParity else NoParity) w")
      case (Inr ws)
      with Some s [of ws] show ?thesis by (auto simp: cmd_session_def)
    qed (use Some in \<open>auto simp: cmd_session_def\<close>)
  qed (simp add: cmd_session_def)
qed

lemma load_image_result:
  assumes "load_image X path q w = (Inr img, out, w')"
  obtains tx i where "read_to_string X path w = (Inr tx, w')" and "parse tx = Inr i" and "img = bytes i"
  using assms by (auto simp: load_image_def split: prod.splits sum.splits)

lemma cli_run_returns:
  assumes "orderly_port (serial X) clk"
  shows "\<exists>res out w'. cli_run X argv w = Some (res, out, w') \<and> res \<noteq> Aborted"
proof -
  note s = cmd_session_returns [OF assms]
  have wr: "\<exists>res out w'. cmd_write X a w = Some (res, out, w') \<and> res \<noteq> Aborted" for a
  proof (cases "positional a")
    case (Cons path rest)
    obtain r out w1 where l: "load_image X path (quiet a) w = (r, out, w1)" by (metis prod_cases3)
    show ?thesis
    proof (cases r)
      case (Inr img)
      obtain res out' w2 where "cmd_session X a (FlashJob img (write_options a)) w1 = Some (res, out', w2)"
        "res \<noteq> Aborted" using s by blast
      with Cons l Inr show ?thesis by (simp add: cmd_write_def)
    qed (use Cons l in \<open>simp add: cmd_write_def\<close>)
  qed (simp add: cmd_write_def)
  have ex: "\<exists>res out w'. cmd_explain X a w = (res, out, w') \<and> res \<noteq> Aborted" for a
    by (auto simp: cmd_explain_def split: list.split prod.split sum.split)
  have po: "\<exists>res out w'. cmd_ports X w = (res, out, w') \<and> res \<noteq> Aborted"
    by (simp add: cmd_ports_def split: prod.split)
  show ?thesis
  proof (cases "argv = []")
    case False
    show ?thesis
    proof (cases "parse_args argv")
      case (Inl e)
      with False show ?thesis by (cases e) (simp_all add: cli_run_def)
    next
      case (Inr a)
      with False s wr [of a] ex [of a] po show ?thesis
        by (cases "command a") (simp_all add: cli_run_def)
    qed
  qed (simp add: cli_run_def)
qed

section \<open>The explained plan\<close>

fun out_row :: "out_line \<Rightarrow> (nat \<times> u8) list" where
  "out_row (BlockLine x ack _) = [(x, ack)]"
| "out_row _ = []"

definition explained_rows :: "out_line list \<Rightarrow> (nat \<times> u8) list" where
  "explained_rows out = concat (map out_row out)"

text \<open>The address and the awaited acknowledgement of the write steps of a plan.\<close>

definition planned_rows :: "step list \<Rightarrow> (nat \<times> u8) list" where
  "planned_rows sts = concat (map (\<lambda>st.
     (case (write_addr st, expect st) of (Some x, BlockAck ack) \<Rightarrow> [(unat x, ack)] | _ \<Rightarrow> [])) sts)"

lemma rows_append [simp]:
  "explained_rows (xs @ ys) = explained_rows xs @ explained_rows ys"
  "planned_rows (ss @ ts) = planned_rows ss @ planned_rows ts"
  by (simp_all add: explained_rows_def planned_rows_def)

lemma planned_rows_none: "\<forall>st \<in> set sts. write_addr st = None \<Longrightarrow> planned_rows sts = []"
  by (auto simp: planned_rows_def)

lemma load_image_rows: "load_image X path q w = (Inr img, out, w') \<Longrightarrow> explained_rows out = []"
  by (auto simp: load_image_def explained_rows_def split: prod.splits sum.splits if_split_asm)

lemma explain_plan:
  assumes "plan info (FlashJob img wo) opts = Inr sts"
  shows "explained_rows (explain_lines img) = planned_rows sts"
proof -
  let ?n = "erase_blocks_for (length img)"
  let ?cs = "slice_chunks WRITE_BLOCK (resize (?n * ERASE_BLOCK) 0xFF img)"
  from flash_plan [OF assms] obtain reload where
    sts: "sts = prologue info opts reload @ erase_step opts ?n # write_steps opts img ?n @
      (if wo then [options_step info opts] else []) @ [run_step opts]" and n: "?n \<le> 255" by metis
  have w: "planned_rows (map (\<lambda>(i, c). write_step opts k i c) ics)
      = explained_rows (map (\<lambda>(i, c). BlockLine (i * WRITE_BLOCK) (block_ack c) (list_all (\<lambda>b. b = 0xFF) c)) ics)"
    if "\<forall>(i, c) \<in> set ics. i < 510" for ics k
    using that
  proof (induction ics)
    case (Cons ic ics)
    moreover have "unat (of_nat (fst ic * WRITE_BLOCK) :: u32) = fst ic * WRITE_BLOCK"
      using Cons.prems by (intro unat_of_nat_u32) (auto simp: WRITE_BLOCK_def split: prod.splits)
    ultimately show ?case
      by (cases ic) (simp add: planned_rows_def explained_rows_def)
  qed (simp add: planned_rows_def explained_rows_def)
  have "\<forall>(i, c) \<in> set (enumerate 0 ?cs). i < 510"
    using n write_chunks(1) [of ?n img] by (auto simp: in_set_enumerate_eq)
  from w [OF this] have "planned_rows (write_steps opts img ?n) = explained_rows (explain_lines img)"
    by (simp add: write_steps_def Let_def explain_lines_def explained_rows_def)
  moreover have "planned_rows (prologue info opts reload) = []"
    by (rule planned_rows_none) (auto dest!: in_prologue)
  moreover have "planned_rows (erase_step opts ?n # xs) = planned_rows xs" for xs
    by (simp add: planned_rows_def)
  moreover have "planned_rows ((if wo then [options_step info opts] else []) @ [run_step opts]) = []"
    by (rule planned_rows_none) auto
  ultimately show ?thesis by (simp add: sts)
qed

end
