(* ===== verification/Stc89_Chip.thy ===== *)
theory Stc89_Chip imports Driver_Chip Cli_Session begin

text \<open>
  A healthy STC89 on the other end of the line, as the environment of a session: what it
  answers to each frame, a serial port with such a chip behind it, and the session that
  programs it. The chip is no part of the program; it shows that the program reaches its goal.
\<close>

section \<open>The chip\<close>

definition stc89_answer :: "frame \<Rightarrow> frame option" where
  "stc89_answer f =
     (if cmd f \<in> {CMD_BAUD_PROBE, CMD_BAUD_COMMIT, CMD_OPTIONS} then Some (f\<lparr>dir := McuToHost\<rparr>)
      else if cmd f = CMD_LINK_TEST then Some (frame_mcu REPLY_ACK [])
      else if cmd f = CMD_ERASE then Some (frame_mcu REPLY_ACK (replicate 7 0))
      else if cmd f = CMD_WRITE then Some (frame_mcu REPLY_ACK [block_ack (drop 6 (payload f))])
      else None)"

definition stc89_reply :: "frame \<Rightarrow> u8 list \<Rightarrow> u8 list" where
  "stc89_reply status bs =
     (if bs = [SYNC_BYTE] then encode status
      else case decode bs of
        Inl _ \<Rightarrow> []
      | Inr f \<Rightarrow> (case stc89_answer f of Some g \<Rightarrow> encode g | None \<Rightarrow> []))"

lemma encode_not_sync [simp]: "encode f \<noteq> [SYNC_BYTE]" "[SYNC_BYTE] \<noteq> encode f"
  by (simp_all add: encode_eq)

lemma stc89_reply_frame:
  "stc89_reply status (encode f) = (case stc89_answer f of Some g \<Rightarrow> encode g | None \<Rightarrow> [])"
  by (simp add: stc89_reply_def)

lemma length_encode_payload: "length (encode f) = length (payload f) + 8"
  by (simp add: length_encode wire_len_def FRAME_OVERHEAD_def)

lemma echo_fits: "expect st = Echo \<Longrightarrow> dir (frame st) = HostToMcu \<Longrightarrow> reply_fits st ((frame st)\<lparr>dir := McuToHost\<rparr>)"
  by (simp add: reply_fits_def check_reply_def is_echo_of_def)

lemma step_timeout [simp]:
  "timeout_ms (baud_probe_step opts r) = reply_timeout_ms opts"
  "timeout_ms (baud_commit_step opts r) = reply_timeout_ms opts"
  "timeout_ms (link_test_step info opts i) = reply_timeout_ms opts"
  "timeout_ms (erase_step opts n) = erase_timeout_ms opts"
  "timeout_ms (write_step opts k i c) = reply_timeout_ms opts"
  "timeout_ms (options_step info opts) = reply_timeout_ms opts"
  "timeout_ms (run_step opts) = reply_timeout_ms opts"
  by (simp_all add: step_builders write_step_def Let_def)

text \<open>The chip has the right answer to every step of every plan made from a parsed status packet.\<close>

lemma plan_answered:
  assumes "parse_status g b = Inr info" and "plan info job opts = Inr sts" and "st \<in> set sts"
  obtains (silent) "st = run_step opts" "stc89_answer (frame st) = None"
  | (answered) f where "expect st \<noteq> Nothing" "stc89_answer (frame st) = Some f" "reply_fits st f"
      "length (payload f) \<le> 8"
proof -
  have opt: "length (option_bytes info) = 1" using parse_status_fields(1) [OF assms(1)] by simp
  have echo: thesis if "expect st = Echo" "dir (frame st) = HostToMcu" "length (payload (frame st)) \<le> 8"
    "cmd (frame st) \<in> {CMD_BAUD_PROBE, CMD_BAUD_COMMIT, CMD_OPTIONS}"
    using that echo_fits [OF that(1,2)]
    by (intro answered [of "(frame st)\<lparr>dir := McuToHost\<rparr>"]) (auto simp: stc89_answer_def)
  have run: "stc89_answer (frame (run_step opts)) = None"
    by (simp add: stc89_answer_def run_frame_def stc89_commands)
  have opts: thesis if "st = options_step info opts"
    using that opt by (intro echo) (simp_all add: options_frame_def OPTIONS_TAIL_def)
  show thesis
    using assms(2,3)
  proof (cases rule: plan_step_cases)
    case (block k i c)
    then have "reply_fits st (frame_mcu REPLY_ACK [block_ack c])"
      by (simp add: reply_fits_def check_reply_def frame_mcu_def)
    then show thesis using block
      by (intro answered [of "frame_mcu REPLY_ACK [block_ack c]"])
        (simp_all add: stc89_answer_def write_frame_def stc89_commands frame_mcu_def to_be32_def to_be16_def)
  next
    case other
    from assms(2) show thesis
    proof (cases rule: plan_cases)
      case 1
      with assms(3) run silent show thesis by simp
    next
      case (2 reload n)
      consider "st = baud_probe_step opts reload \<or> st = baud_commit_step opts reload"
        | i where "st = link_test_step info opts i" | "st = erase_step opts n"
        | "st = options_step info opts" | "st = run_step opts"
        using assms(3) other 2(6)
        by (auto simp: write_frame_def dest!: in_prologue in_flash_steps)
      then show thesis
      proof cases
        case 1
        then show thesis
          by (intro echo) (auto simp: frame_builders reload_field_eq BAUD_CONSTS_def)
      next
        case (2 i)
        then show thesis
          by (intro answered [of "frame_mcu REPLY_ACK []"])
            (auto simp: stc89_answer_def link_test_frame_def stc89_commands reply_fits_def check_reply_def
               frame_mcu_def)
      next
        case 3
        then show thesis
          by (intro answered [of "frame_mcu REPLY_ACK (replicate 7 0)"])
            (auto simp: stc89_answer_def erase_frame_def stc89_commands reply_fits_def check_reply_def
               frame_mcu_def)
      qed (use opts run silent in simp_all)
    qed
  qed
qed

lemma plan_timeouts:
  assumes "plan info job opts = Inr sts" and "0 < reply_timeout_ms opts" and "0 < erase_timeout_ms opts"
    and "st \<in> set sts"
  shows "0 < timeout_ms st"
  using assms(1)
proof (cases rule: plan_cases)
  case (2 reload n)
  with assms(2-4) show ?thesis by (auto dest!: in_prologue in_flash_steps)
qed (use assms(2,4) in simp)

lemma plan_served:
  assumes "parse_status g b = Inr info" and "plan info job opts = Inr sts"
    and "0 < reply_timeout_ms opts" and "0 < erase_timeout_ms opts" and "st \<in> set sts"
  shows "served (stc89_reply status) st"
  using assms(1,2,5)
proof (cases rule: plan_answered)
  case (answered f)
  have "length (encode f) \<le> 512" unfolding length_encode_payload using answered(4) by simp
  with answered plan_timeouts [OF assms(2-5)] show ?thesis by (auto simp: served_def stc89_reply_frame)
qed (simp add: served_def stc89_reply_frame)

text \<open>Only the last step of a plan goes unanswered.\<close>

lemma plan_awaits: "plan info job opts = Inr sts \<Longrightarrow> \<forall>st \<in> set (butlast sts). expect st \<noteq> Nothing"
  using stc89_family.plan_ends by (metis butlast_snoc)

section \<open>A session with a chip\<close>

text \<open>Behind a handshake, a session with a chip that serves the plan succeeds, and leaves the chip as it was served.\<close>

lemma session_heard:
  assumes chip: "uart_wire W hear legible on_line clk"
    and hs: "handshake W is_status_frame parse_status (session_opts a) (wait_time a) [] w = Some (Done info, log1, w1)"
    and "on_line w1 l" and "all_sent l" and "incoming l = []" and "arg_drain_mode a = TcDrain \<or> prompt on_line"
    and pl: "plan info job (session_opts a) = Inr sts"
    and srv: "serves_all hear legible (mcu l) (line_rate l) sts c"
  obtains out w' l' where "drive_session W a job w = Some (Success, out, w')" "on_line w' l'" "mcu l' = c"
proof -
  have "drain_mode (drain_args a) = TcDrain \<or> prompt on_line" using assms(6) by (simp add: drain_args_def)
  moreover have "serves_all hear legible (mcu l) (line_rate l) (remaining (session_new sts)) c"
    using srv by (simp add: remaining_def session_new_def)
  ultimately obtain s' log' w' l' where
    r: "run W (session_new sts) (drain_args a) [] w1 = Some (Done (), s', log', w')" "on_line w' l'" "mcu l' = c"
    using uart_wire.run_heard [OF chip session_inv_new session_new_idle assms(3-5)] unfolding run_def by blast
  obtain out where "drive_session W a job w = Some (Success, out, w')"
    using hs pl r(1) by (cases "cli_logs (quiet a) log1 0") (auto simp: drive_session_def Let_def)
  from that [OF this r(2,3)] show thesis .
qed

lemma session_opts_defaults:
  "handshake_baud (session_opts a) = arg_handshake_baud a" "0 < reply_timeout_ms (session_opts a)"
  "0 < erase_timeout_ms (session_opts a)"
  by (simp_all add: session_opts_def session_options_default_def)

text \<open>A session with the obliging chip succeeds, for every job that has a plan.\<close>

lemma obliging_handshake:
  assumes chip: "obliging_wire W reply queue clk" and "queue w = []" and "reply [SYNC_BYTE] = encode status"
    and ps: "parse_status status (arg_handshake_baud a) = Inr info" and "length (payload status) \<le> 248"
    and "0 < wait_s a"
  obtains log1 w1 l1 where
    "handshake W is_status_frame parse_status (session_opts a) (wait_time a) [] w = Some (Done info, log1, w1)"
    "queues queue w1 l1" "all_sent l1" "incoming l1 = []"
proof -
  note uart = obliging_wire.as_uart [OF chip]
  let ?l = "\<lparr>line_rate = 0, mcu = (), reply_rate = (), incoming = [], all_sent = True\<rparr>"
  have l: "queues queue w ?l" "all_sent ?l" "incoming ?l = []" using assms(2) by (simp_all add: queues_def)
  have w: "0 < wait_time a" using assms(6) by (simp add: wait_time_def word_less_def)
  have h: "answering reply (mcu ?l) (handshake_baud (session_opts a)) [SYNC_BYTE] = ((), (), encode status)"
    using assms(3) by (simp add: answering_def)
  have c: "chatter_then 256 [] status (encode status)"
    using assms(5) by (intro chatter_none) (simp only: length_encode_payload)
  obtain log1 w1 l1 where
    "handshake W is_status_frame parse_status (session_opts a) (wait_time a) [] w
      = Some (status_outcome parse_status (handshake_baud (session_opts a)) status, log1, w1)"
    "queues queue w1 l1" "all_sent l1" "incoming l1 = []"
    by (rule uart_wire.handshake_heard [where is_status = is_status_frame and f = status and log = "[]"
          and p = parse_status, OF uart l w h TrueI c is_status_of_parse [OF ps]]) (rule that)
  then show thesis using that ps by (simp add: status_outcome_def session_opts_defaults)
qed

lemma chip_session:
  assumes chip: "obliging_wire W (stc89_reply status) queue clk" and "queue w = []"
    and ps: "parse_status status (arg_handshake_baud a) = Inr info" and "length (payload status) \<le> 248"
    and pl: "plan info job (session_opts a) = Inr sts" and "0 < wait_s a"
  shows "\<exists>out w'. drive_session W a job w = Some (Success, out, w')"
proof -
  have "stc89_reply status [SYNC_BYTE] = encode status" by (simp add: stc89_reply_def)
  from obliging_handshake [OF assms(1,2) this ps assms(4,6)] obtain log1 w1 l1 where
    hs: "handshake W is_status_frame parse_status (session_opts a) (wait_time a) [] w = Some (Done info, log1, w1)"
    and l1: "queues queue w1 l1" "all_sent l1" "incoming l1 = []" by blast
  have "serves_all (answering (stc89_reply status)) (\<lambda>_ _. True) () (line_rate l1) sts ()"
    using plan_served [OF ps pl session_opts_defaults(2,3)] plan_awaits [OF pl] by (intro served_serves_all) blast+
  then have "serves_all (answering (stc89_reply status)) (\<lambda>_ _. True) (mcu l1) (line_rate l1) sts ()" by simp
  from session_heard [OF obliging_wire.as_uart [OF chip] hs l1 disjI2 [OF prompt_queues] pl this]
  show ?thesis by blast
qed

section \<open>A serial port with a chip\<close>

text \<open>
  The port keeps the time and what the chip has answered. A read takes one millisecond,
  and with nothing to read it times out after the poll.
\<close>

definition chip_port :: "(u8 list \<Rightarrow> u8 list) \<Rightarrow> (int \<times> u8 list) serial_port" where
  "chip_port reply = \<lparr>
     port_open = (\<lambda>_ w. (Inr 3, w)),
     port_write_all = (\<lambda>bs (t, q). (Inr (), t, q @ reply bs)),
     port_read = (\<lambda>n (t, q).
       if q = [] then (Inl (IoError TimedOut ''''), t + READ_POLL, [])
       else (Inr (take n q), t + millis 1, drop n q)),
     port_set_baud_rate = (\<lambda>_ w. (Inr (), w)), port_flush = (\<lambda>w. (Inr (), w)),
     available_ports = (\<lambda>w. (Inr [''/dev/ttyUSB0''], w)), io_to_serial = message,
     libc_ioctl = (\<lambda>_ _ _ w. (0, w)), libc_tcdrain = (\<lambda>_ w. (0, w)),
     last_os_error = (\<lambda>_. IoError Other ''''),
     os_now = (\<lambda>(t, q). (t, t, q)), os_sleep = (\<lambda>d (t, q). (t + max 0 d, q))\<rparr>"

lemma chip_port_orderly: "orderly_port (chip_port reply) fst"
  by (auto simp: orderly_port_def chip_port_def READ_POLL_def millis_def)

interpretation chip: obliging_wire "wire_impl tgt (chip_port reply)" reply "snd \<circ> port" "fst \<circ> port"
  for tgt reply
proof unfold_locales
  fix n and w :: "(int \<times> u8 list) serial_wire"
  show "\<exists>w'. wire_read (wire_impl tgt (chip_port reply)) n w = (Inr (take n ((snd \<circ> port) w)), w')
      \<and> (snd \<circ> port) w' = drop n ((snd \<circ> port) w)"
    by (cases "port w") (auto simp: wire_impl_def serial_read_def on_port_def chip_port_def)
qed (auto simp: wire_impl_def serial_set_baud_def serial_drain_def force_baud_iossiospeed_def on_port_def
    chip_port_def split: prod.splits)

text \<open>A platform with the chip of the sample status packet on every port, and one file.\<close>

abbreviation sample_packet :: frame where
  "sample_packet \<equiv> sample_status (replicate 31 0)"

definition chip_platform :: "string \<Rightarrow> (int \<times> u8 list) platform" where
  "chip_platform txt =
     \<lparr>target = OtherUnix, serial = chip_port (stc89_reply sample_packet), read_to_string = (\<lambda>_ w. (Inr txt, w))\<rparr>"

lemma sample_short: "length (payload sample_packet) \<le> 248"
  by (simp add: sample_status_def frame_mcu_def)

lemma chip_platform_session:
  assumes "arg_port a = Some path" and "arg_handshake_baud a = 2400" and "0 < wait_s a"
    and "plan sample_info job (session_opts a) = Inr sts" and "snd w = []"
  shows "\<exists>out w'. cmd_session (chip_platform txt) a job w = Some (Success, out, w')"
proof -
  let ?s = "\<lparr>port = w, baud = 2400, fd = 3\<rparr>"
  have op: "serial_open OtherUnix (chip_port reply) path 2400 p w = Inr ?s" for reply p
    by (simp add: serial_open_def chip_port_def)
  have "parse_status sample_packet (arg_handshake_baud a) = Inr sample_info"
    using sample_parses assms(2) by simp
  from chip_session [OF chip.obliging_wire_axioms _ this sample_short assms(4,3), of ?s OtherUnix] assms(5)
  obtain out w' where "drive_session (wire_impl OtherUnix (chip_port (stc89_reply sample_packet))) a job ?s
      = Some (Success, out, w')" by auto
  with op assms(1,2) show ?thesis
    by (simp add: cmd_session_def chip_platform_def session_opts_def)
qed


text \<open>A sample session on the chip's port, with its tape.\<close>

abbreviation chip_wire :: "(int \<times> u8 list) serial_wire wire" where
  "chip_wire \<equiv> wire_impl OtherUnix (chip_port (stc89_reply sample_packet))"

definition chip_start :: "(int \<times> u8 list) serial_wire" where
  "chip_start = \<lparr>port = (0, []), baud = 2400, fd = 3\<rparr>"

lemma sample_status_read:
  obtains f where "status_read (taped chip_wire) args_default (chip_start, []) f sample_info"
proof -
  have q: "(snd \<circ> port) chip_start = []" "0 < wait_s args_default" by (simp_all add: chip_start_def args_default_def)
  have sync: "stc89_reply sample_packet [SYNC_BYTE] = encode sample_packet" by (simp add: stc89_reply_def)
  have ps: "parse_status sample_packet (arg_handshake_baud args_default) = Inr sample_info"
    using sample_parses by (simp add: args_default_def)
  obtain log1 w1 where hs: "handshake chip_wire is_status_frame parse_status (session_opts args_default)
      (wait_time args_default) [] chip_start = Some (Done sample_info, log1, w1)"
    by (rule obliging_handshake [where W = chip_wire and queue = "snd \<circ> port" and w = chip_start,
          OF chip.obliging_wire_axioms q(1) sync ps sample_short q(2)])
  from tape_handshake [OF hs] obtain tape where "handshake (taped chip_wire) is_status_frame parse_status
      (session_opts args_default) (wait_time args_default) [] (chip_start, []) = Some (Done sample_info, log1, (w1, tape))" .
  from status_readI [OF this] that show thesis by blast
qed

lemma default_session:
  assumes "plan sample_info job session_options_default = Inr sts"
  obtains out s' tape where
    "drive_session (taped chip_wire) args_default job (chip_start, []) = Some (Success, out, (s', tape))"
proof -
  have o': "session_opts args_default = session_options_default"
    by (simp add: session_opts_def session_options_default_def args_default_def)
  have "parse_status sample_packet (arg_handshake_baud args_default) = Inr sample_info"
    using sample_parses by (simp add: args_default_def)
  from chip_session [OF chip.obliging_wire_axioms _ this sample_short, of chip_start job sts OtherUnix] assms o'
  obtain out s' where "drive_session chip_wire args_default job chip_start = Some (Success, out, s')"
    by (auto simp: chip_start_def args_default_def)
  then show thesis using that by (auto elim: drive_session_tape)
qed

end
