(* ===== verification/Stc89_Uart.thy ===== *)
theory Stc89_Uart imports Stc89_Chip begin

text \<open>
  An STC89 that has a state: it sleeps through the first pulses, follows the rate of the host until the
  negotiation sets its timer, hears a frame only at a rate near its own, and keeps a flash whose
  writes can clear bits but not set them. A plan leaves it with the image in its flash. The
  chip is described after the comments of the sources; it is no part of the program.
\<close>

section \<open>The chip\<close>

text \<open>
  The rate a chip is at: that of the host's pulses, or its clock divided by 32 and by the ticks
  of its timer. Two ends understand each other when their rates differ by a fortieth at most.
\<close>

datatype tuning = Follows u32 | Divides nat

definition in_tune :: "int \<Rightarrow> tuning \<Rightarrow> u32 \<Rightarrow> bool" where
  "in_tune hz t b \<longleftrightarrow>
     (case t of Follows r \<Rightarrow> b = r | Divides n \<Rightarrow> 40 * \<bar>hz - 32 * int n * uint b\<bar> \<le> hz)"

abbreviation near :: "u32 \<Rightarrow> int \<times> tuning \<Rightarrow> bool" where
  "near b ht \<equiv> in_tune (fst ht) (snd ht) b"

record stc89_chip =
  asleep :: nat
  crystal :: int
  tuned :: tuning
  flash :: "nat \<Rightarrow> u8"
  option_byte :: u8
  released :: bool

definition reload_ticks :: "frame \<Rightarrow> nat" where
  "reload_ticks f = 65536 - unat (from_be16 (payload f ! 0) (payload f ! 1))"

text \<open>What a frame makes of the chip. An erase sets every bit of its blocks, a write clears bits.\<close>

definition obey :: "frame \<Rightarrow> stc89_chip \<Rightarrow> stc89_chip" where
  "obey f c =
     (if cmd f = CMD_BAUD_COMMIT then c\<lparr>tuned := Divides (reload_ticks f)\<rparr>
      else if cmd f = CMD_ERASE then
        c\<lparr>flash := (\<lambda>x. if x < unat (payload f ! 0) * ERASE_BLOCK then 0xFF else flash c x)\<rparr>
      else if cmd f = CMD_WRITE then
        (case write_request f of
           Some (lo, d) \<Rightarrow>
             c\<lparr>flash := (\<lambda>x. if lo \<le> x \<and> x < lo + length d then flash c x AND d ! (x - lo) else flash c x)\<rparr>
         | None \<Rightarrow> c)
      else if cmd f = CMD_OPTIONS then c\<lparr>option_byte := payload f ! 0\<rparr>
      else if cmd f = CMD_RUN then c\<lparr>released := True\<rparr>
      else c)"

definition stc89_hear :: "frame \<Rightarrow> (u8 list \<Rightarrow> u8 list) \<Rightarrow> (stc89_chip, int \<times> tuning) hearing" where
  "stc89_hear status chatter c r bs =
     (let own = (crystal c, tuned c)
      in if released c then (c, own, [])
         else if bs = [SYNC_BYTE] then
           (if 0 < asleep c then (c\<lparr>asleep := asleep c - 1\<rparr>, own, [])
            else (c\<lparr>tuned := Follows r\<rparr>, (crystal c, Follows r), chatter bs @ encode status))
         else if 0 < asleep c \<or> \<not> near r own then (c, own, [])
         else case decode bs of
           Inl _ \<Rightarrow> (c, own, [])
         | Inr f \<Rightarrow>
             (obey f c,
              if cmd f \<in> {CMD_BAUD_PROBE, CMD_BAUD_COMMIT} then (crystal c, Divides (reload_ticks f)) else own,
              case stc89_answer f of Some g \<Rightarrow> chatter bs @ encode g | None \<Rightarrow> []))"

lemma obey_keeps [simp]: "asleep (obey f c) = asleep c" "crystal (obey f c) = crystal c"
  by (simp_all add: obey_def split: option.splits)

lemma obey_tuned [simp]: "cmd f \<noteq> CMD_BAUD_COMMIT \<Longrightarrow> tuned (obey f c) = tuned c"
  and obey_released [simp]: "cmd f \<noteq> CMD_RUN \<Longrightarrow> released (obey f c) = released c"
  and obey_flash [simp]: "cmd f \<notin> {CMD_ERASE, CMD_WRITE} \<Longrightarrow> flash (obey f c) = flash c"
  and obey_option [simp]: "cmd f \<noteq> CMD_OPTIONS \<Longrightarrow> option_byte (obey f c) = option_byte c"
  by (simp_all add: obey_def split: option.splits)

lemma stc89_hear_frame:
  "stc89_hear status chatter c r (encode f) =
     (if released c \<or> 0 < asleep c \<or> \<not> in_tune (crystal c) (tuned c) r then (c, (crystal c, tuned c), [])
      else (obey f c,
        if cmd f \<in> {CMD_BAUD_PROBE, CMD_BAUD_COMMIT} then (crystal c, Divides (reload_ticks f)) else (crystal c, tuned c),
        case stc89_answer f of Some g \<Rightarrow> chatter (encode f) @ encode g | None \<Rightarrow> []))"
  by (simp add: stc89_hear_def Let_def)

lemma stc89_misses:
  "\<not> released c \<Longrightarrow> n \<le> asleep c \<Longrightarrow>
     missing (stc89_hear status chatter) b n c = Some (c\<lparr>asleep := asleep c - n\<rparr>)"
proof (induction n arbitrary: c)
  case (Suc n)
  then show ?case by (simp add: stc89_hear_def Let_def)
qed simp

section \<open>It serves every plan\<close>

definition brief :: "nat \<Rightarrow> (u8 list \<Rightarrow> u8 list) \<Rightarrow> bool" where
  "brief n chatter \<longleftrightarrow> (\<forall>bs. \<not> has_magic (chatter bs) \<and> length (chatter bs) \<le> n)"

lemma reload_ticks_frames [simp]:
  "reload_ticks (baud_probe_frame r) = 256 - unat r" "reload_ticks (baud_commit_frame r) = 256 - unat r"
  by (simp_all add: reload_ticks_def baud_probe_frame_def baud_commit_frame_def reload_field_eq unat_from_be16)

text \<open>One step, served when the two ends are in tune for its frame and for its answer.\<close>

lemma stc89_serves:
  assumes "parse_status g b = Inr info" and "plan info job opts = Inr sts" and "st \<in> set sts"
    and "0 < reply_timeout_ms opts" and "0 < erase_timeout_ms opts" and "brief 400 chatter"
    and "\<not> released c" and "asleep c = 0" and "in_tune (crystal c) (tuned c) (told_at r st)"
    and "in_tune (crystal c) (if cmd (frame st) \<in> {CMD_BAUD_PROBE, CMD_BAUD_COMMIT}
           then Divides (reload_ticks (frame st)) else tuned c) (answered_at r st)"
  shows "serves (stc89_hear status chatter) near c r st (obey (frame st) c)"
  using assms(1-3)
proof (cases rule: plan_answered)
  case silent
  with assms(7-9) show ?thesis by (simp add: serves_def stc89_hear_frame)
next
  case (answered f)
  have "chatter_then 512 (chatter (encode (frame st))) f (chatter (encode (frame st)) @ encode f)"
    using assms(6) [unfolded brief_def, rule_format, of "encode (frame st)"] answered(4)
    unfolding chatter_then_def length_append length_encode_payload by simp
  with answered(1-3) plan_timeouts [OF assms(2,4,5,3)] assms(7-10) show ?thesis
    by (auto simp: serves_def stc89_hear_frame)
qed

text \<open>Behind the negotiation no step changes the rate, on either side.\<close>

definition steady :: "step \<Rightarrow> bool" where
  "steady st \<longleftrightarrow> untuned st \<and> cmd (frame st) \<notin> {CMD_BAUD_PROBE, CMD_BAUD_COMMIT}
     \<and> (expect st \<noteq> Nothing \<longrightarrow> cmd (frame st) \<noteq> CMD_RUN)"

lemma steady_rates: "steady st \<Longrightarrow> told_at r st = r \<and> answered_at r st = r"
  by (simp add: steady_def untuned_def told_at_def answered_at_def)

lemma stc89_serves_steady:
  assumes p: "parse_status g b = Inr info" "plan info job opts = Inr sts"
    and ms: "0 < reply_timeout_ms opts" "0 < erase_timeout_ms opts" and ch: "brief 400 chatter"
    and "set ts \<subseteq> set sts" and "\<forall>st \<in> set ts. steady st" and "\<forall>st \<in> set (butlast ts). expect st \<noteq> Nothing"
    and "\<not> released c" and "asleep c = 0" and "in_tune (crystal c) (tuned c) r"
  shows "serves_all (stc89_hear status chatter) near c r ts (fold obey (map frame ts) c)"
  using assms(6-)
proof (induction ts arbitrary: c)
  case Nil
  then show ?case by simp
next
  case (Cons t ts)
  have t: "t \<in> set sts" "steady t" using Cons.prems by simp_all
  have srv: "serves (stc89_hear status chatter) near c r t (obey (frame t) c)"
    using t(2) Cons.prems(4-6) by (intro stc89_serves [OF p t(1) ms ch]) (simp_all add: steady_rates steady_def)
  show ?case
  proof (cases "ts = []")
    case False
    then have "expect t \<noteq> Nothing" using Cons.prems(3) by simp
    moreover from this have "serves_all (stc89_hear status chatter) near (obey (frame t) c) r ts
        (fold obey (map frame ts) (obey (frame t) c))"
      using Cons.prems False t(2) by (intro Cons.IH) (simp_all add: steady_def)
    ultimately show ?thesis using srv steady_rates [OF t(2)] by auto
  qed (use srv in auto)
qed

lemma stc89_serves_plan:
  assumes p: "parse_status g b = Inr info" "plan info job opts = Inr sts"
    and ms: "0 < reply_timeout_ms opts" "0 < erase_timeout_ms opts" and ch: "brief 400 chatter"
    and c: "\<not> released c" "asleep c = 0" "tuned c = Follows (handshake_baud opts)"
    and near: "\<And>r. job \<noteq> Identify \<Longrightarrow> timer_reload (measured_hz info) (transfer_baud opts) = Inr r \<Longrightarrow>
      in_tune (crystal c) (Divides (256 - unat r)) (transfer_baud opts)"
  shows "serves_all (stc89_hear status chatter) near c (handshake_baud opts) sts (fold obey (map frame sts) c)"
  using p(2)
proof (cases rule: plan_cases)
  case 1
  have "steady (run_step opts)" by (simp add: steady_def run_frame_def stc89_commands)
  with 1 c show ?thesis by (intro stc89_serves_steady [OF p ms ch]) (simp_all add: in_tune_def)
next
  case (2 reload n)
  define rest where "rest = map (link_test_step info opts) [0..<LINK_TEST_REPEATS]
    @ erase_step opts n # flash_steps info opts n job @ [run_step opts]"
  let ?b = "transfer_baud opts" and ?ps = "baud_probe_step opts reload" and ?cs = "baud_commit_step opts reload"
  have sts: "sts = ?ps # ?cs # rest" using 2 by (simp add: prologue_def rest_def)
  have tune: "in_tune (crystal c) (Divides (256 - unat reload)) ?b" by (rule near [OF 2(1,2)])
  have f: "frame ?ps = baud_probe_frame reload" "frame ?cs = baud_commit_frame reload"
    "cmd (baud_probe_frame reload) = CMD_BAUD_PROBE" "cmd (baud_commit_frame reload) = CMD_BAUD_COMMIT"
    by (simp_all add: step_builders frame_builders)
  let ?c1 = "obey (frame ?ps) c" and ?c2 = "obey (frame ?cs) (obey (frame ?ps) c)"
  have c1: "\<not> released ?c1" "asleep ?c1 = 0" "tuned ?c1 = Follows (handshake_baud opts)" "crystal ?c1 = crystal c"
    using c by (simp_all add: f stc89_commands)
  have c2: "\<not> released ?c2" "asleep ?c2 = 0" "tuned ?c2 = Divides (256 - unat reload)" "crystal ?c2 = crystal c"
    using c1 by (simp_all add: f obey_def stc89_commands)
  have "serves (stc89_hear status chatter) near c (handshake_baud opts) ?ps ?c1"
    using sts c tune by (intro stc89_serves [OF p _ ms ch])
      (simp_all add: told_at_def answered_at_def in_tune_def f)
  moreover have "answered_at (handshake_baud opts) ?ps = ?b" by (simp add: answered_at_def)
  moreover have "serves (stc89_hear status chatter) near ?c1 ?b ?cs ?c2"
    using sts c1 tune by (intro stc89_serves [OF p _ ms ch])
      (simp_all add: told_at_def answered_at_def in_tune_def f)
  moreover have "answered_at ?b ?cs = ?b" by (simp add: answered_at_def)
  moreover have "serves_all (stc89_hear status chatter) near ?c2 ?b rest (fold obey (map frame rest) ?c2)"
  proof (rule stc89_serves_steady [OF p ms ch])
    show "\<forall>st \<in> set rest. steady st"
      by (auto simp: rest_def steady_def frame_builders stc89_commands dest!: in_flash_steps)
    show "\<forall>st \<in> set (butlast rest). expect st \<noteq> Nothing"
      using plan_awaits [OF p(2)] sts by (simp add: rest_def)
  qed (use sts c2 tune in auto)
  ultimately show ?thesis unfolding sts by auto
qed

section \<open>What a plan leaves in the chip\<close>

lemma fold_obey_flash:
  "\<forall>f \<in> set fs. cmd f \<notin> {CMD_ERASE, CMD_WRITE} \<Longrightarrow> flash (fold obey fs c) = flash c"
  by (induction fs arbitrary: c) auto

lemma obey_block:
  assumes "length d = 128" and "k * 128 < 4294967296"
  shows "flash (obey (block_frame k d) c) x =
    (if k * 128 \<le> x \<and> x < k * 128 + 128 then flash c x AND d ! (x - k * 128) else flash c x)"
proof -
  have "cmd (block_frame k d) = CMD_WRITE" by (simp add: block_frame_def write_frame_def)
  moreover have "CMD_WRITE \<notin> {CMD_BAUD_COMMIT, CMD_ERASE}" by (simp add: stc89_commands)
  ultimately have "obey (block_frame k d) c = c\<lparr>flash := (\<lambda>x. if k * 128 \<le> x \<and> x < k * 128 + length d
      then flash c x AND d ! (x - k * 128) else flash c x)\<rparr>"
    using write_request_block [OF assms] by (simp add: obey_def)
  then show ?thesis using assms(1) by simp
qed

lemma program_blocks:
  assumes "\<forall>d \<in> set ds. length d = 128" and "(k + length ds) * 128 < 4294967296"
  shows "flash (fold obey (map (\<lambda>(i, d). block_frame i d) (enumerate k ds)) c) x =
    (if k * 128 \<le> x \<and> x < (k + length ds) * 128 then flash c x AND concat ds ! (x - k * 128) else flash c x)"
  using assms
proof (induction ds arbitrary: k c)
  case Nil
  then show ?case by auto
next
  case (Cons d ds)
  let ?c = "obey (block_frame k d) c"
  have d: "length d = 128" and blk: "flash ?c x =
      (if k * 128 \<le> x \<and> x < k * 128 + 128 then flash c x AND d ! (x - k * 128) else flash c x)"
    using Cons.prems by (simp_all add: obey_block)
  have "flash (fold obey (map (\<lambda>(i, d). block_frame i d) (enumerate (Suc k) ds)) ?c) x =
      (if Suc k * 128 \<le> x \<and> x < (Suc k + length ds) * 128
       then flash ?c x AND concat ds ! (x - Suc k * 128) else flash ?c x)"
    using Cons.prems by (intro Cons.IH) auto
  then have IH: "flash (fold obey (map (\<lambda>(i, d). block_frame i d) (enumerate k (d # ds))) c) x =
      (if Suc k * 128 \<le> x \<and> x < (Suc k + length ds) * 128
       then flash ?c x AND concat ds ! (x - Suc k * 128) else flash ?c x)" by simp
  consider "x < k * 128" | "k * 128 \<le> x" "x < Suc k * 128" | "Suc k * 128 \<le> x" by linarith
  then show ?case
  proof cases
    case 1
    then show ?thesis unfolding IH blk by simp
  next
    case 2
    then have "x - k * 128 < 128" by simp
    with 2 d show ?thesis unfolding IH blk by (simp add: nth_append)
  next
    case 3
    then have "\<not> x < k * 128 + 128" "\<not> x - k * 128 < 128" "x - k * 128 - length d = x - Suc k * 128"
      using d by simp_all
    with 3 d show ?thesis unfolding IH blk by (simp add: nth_append)
  qed
qed

lemma erased_and [simp]: "(0xFF :: u8) AND b = b"
proof -
  have "(0xFF :: u8) = - 1" by simp
  then show ?thesis by (simp only: and.left_neutral)
qed

text \<open>
  What is in the flash when a flash plan is through, whatever was in it before: the erase came
  first, covered every block, and no block was written over another.
\<close>

lemma flash_plan_in_chip:
  assumes "plan info (FlashJob img wo) opts = Inr sts"
  shows "flash (fold obey (map frame sts) c) x =
    (if x < length img then img ! x
     else if x < erase_blocks_for (length img) * ERASE_BLOCK then 0xFF
     else flash c x)"
proof -
  let ?n = "erase_blocks_for (length img)"
  let ?ds = "slice_chunks WRITE_BLOCK (resize (?n * ERASE_BLOCK) 0xFF img)"
  from flash_plan [OF assms] obtain reload where
    sts: "sts = prologue info opts reload @ erase_step opts ?n # write_steps opts img ?n @
      (if wo then [options_step info opts] else []) @ [run_step opts]" and n: "?n \<le> 255" by metis
  define post where "post = map frame ((if wo then [options_step info opts] else []) @ [run_step opts])"
  define c1 where "c1 = fold obey (map frame (prologue info opts reload)) c"
  define c2 where "c2 = obey (erase_frame (of_nat ?n)) c1"
  define c3 where "c3 = fold obey (map frame (write_steps opts img ?n)) c2"
  have c: "fold obey (map frame sts) c = fold obey post c3"
    by (simp add: sts post_def c1_def c2_def c3_def)
  have "flash (fold obey post c3) = flash c3"
    using tail_cmd [of _ wo info opts] by (intro fold_obey_flash) (auto simp: post_def)
  moreover have "flash c1 = flash c"
    using prologue_cmd [of _ info opts reload] unfolding c1_def by (intro fold_obey_flash) auto
  moreover have "unat (of_nat ?n :: u8) = ?n" using n by (simp add: unsigned_of_nat take_bit_nat_eq_self)
  then have "flash c2 x = (if x < ?n * ERASE_BLOCK then 0xFF else flash c1 x)"
    by (simp add: c2_def obey_def erase_frame_def stc89_commands)
  moreover have "flash c3 x = (if x < ?n * ERASE_BLOCK
      then flash c2 x AND resize (?n * ERASE_BLOCK) 0xFF img ! x else flash c2 x)"
  proof -
    have "(0 + length ?ds) * 128 < 4294967296" using n by (simp add: write_chunks)
    from program_blocks [OF write_chunks(2) this, of c2 x] show ?thesis
      unfolding c3_def write_steps_frames by (simp add: write_chunks(1,3)) (simp add: ERASE_BLOCK_def)
  qed
  ultimately show ?thesis
    using erase_blocks_for_cover [of "length img"] by (simp add: c nth_resize)
qed

lemma plan_releases:
  assumes "plan info job opts = Inr sts"
  shows "released (fold obey (map frame sts) c)"
proof -
  have "\<exists>ts. sts = ts @ [run_step opts]" using assms by (cases rule: plan_cases) auto
  then show ?thesis by (auto simp: obey_def run_frame_def stc89_commands)
qed

lemma plan_keeps_option:
  assumes "plan info job opts = Inr sts" and "option_bytes info = [option_byte c]"
  shows "option_byte (fold obey (map frame sts) c) = option_byte c"
proof -
  have "option_byte (fold obey fs c') = option_byte c"
    if "\<forall>f \<in> set fs. cmd f = CMD_OPTIONS \<longrightarrow> f = options_frame info" "option_byte c' = option_byte c" for fs c'
    using that
  proof (induction fs arbitrary: c')
    case (Cons f fs)
    have "option_byte (obey f c') = option_byte c"
    proof (cases "cmd f = CMD_OPTIONS")
      case True
      with Cons.prems(1) assms(2) show ?thesis by (simp add: obey_def options_frame_def stc89_commands)
    qed (use Cons.prems(2) in simp)
    with Cons show ?case by simp
  qed simp
  moreover have "cmd (frame st) = CMD_OPTIONS \<longrightarrow> frame st = options_frame info" if "st \<in> set sts" for st
    using assms(1)
    by (cases rule: plan_cases) (use that in \<open>auto simp: frame_builders stc89_commands dest!: in_prologue in_flash_steps\<close>)
  ultimately show ?thesis by simp
qed

section \<open>A session with it\<close>

lemma brief_mono: "brief n chatter \<Longrightarrow> n \<le> m \<Longrightarrow> brief m chatter"
  by (auto simp: brief_def intro: order_trans)

lemma uart_session:
  assumes wire: "polled_wire W (stc89_hear status chatter) near on_line clk"
    and l: "on_line w l" "all_sent l" "incoming l = []" and rel: "\<not> released (mcu l)"
    and ch: "brief n chatter" "n + length (payload status) \<le> 248"
    and ps: "parse_status status (arg_handshake_baud a) = Inr info"
    and dm: "arg_drain_mode a = TcDrain \<or> prompt on_line"
    and pl: "plan info job (session_opts a) = Inr sts"
    and tune: "\<And>r. job \<noteq> Identify \<Longrightarrow> timer_reload (measured_hz info) (arg_transfer_baud a) = Inr r \<Longrightarrow>
      in_tune (crystal (mcu l)) (Divides (256 - unat r)) (arg_transfer_baud a)"
    and wait: "READ_POLL + int (asleep (mcu l)) * (PULSE_EVERY + READ_POLL) < wait_time a"
  obtains out w' l' where "drive_session W a job w = Some (Success, out, w')" "on_line w' l'"
    "mcu l' = fold obey (map frame sts) (mcu l\<lparr>asleep := 0, tuned := Follows (arg_handshake_baud a)\<rparr>)"
proof -
  let ?o = "session_opts a" and ?h = "arg_handshake_baud a" and ?hear = "stc89_hear status chatter"
  let ?c1 = "mcu l\<lparr>asleep := 0\<rparr>" and ?c2 = "mcu l\<lparr>asleep := 0, tuned := Follows ?h\<rparr>"
  note uart = polled_wire.axioms(1) [OF wire]
  have ch400: "brief 400 chatter" using ch by (intro brief_mono [OF ch(1)]) simp
  have miss: "missing ?hear (handshake_baud ?o) (asleep (mcu l)) (mcu l) = Some ?c1"
    using stc89_misses [OF rel order_refl] by simp
  have h: "?hear ?c1 (handshake_baud ?o) [SYNC_BYTE]
      = (?c2, (crystal (mcu l), Follows ?h), chatter [SYNC_BYTE] @ encode status)"
    using rel by (simp add: stc89_hear_def Let_def session_opts_defaults)
  have near: "near (handshake_baud ?o) (crystal (mcu l), Follows ?h)"
    by (simp add: in_tune_def session_opts_defaults)
  have "length (chatter [SYNC_BYTE]) \<le> n" "\<not> has_magic (chatter [SYNC_BYTE])"
    using ch(1) by (simp_all add: brief_def)
  then have c: "chatter_then 256 (chatter [SYNC_BYTE]) status (chatter [SYNC_BYTE] @ encode status)"
    using ch(2) unfolding chatter_then_def length_append length_encode_payload by simp
  obtain log1 w1 l1 where
    hs: "handshake W is_status_frame parse_status ?o (wait_time a) [] w
      = Some (status_outcome parse_status (handshake_baud ?o) status, log1, w1)"
    and l1: "on_line w1 l1" "all_sent l1" "incoming l1 = []" "mcu l1 = ?c2" "line_rate l1 = handshake_baud ?o"
    by (rule polled_wire.handshake_woken [where is_status = is_status_frame and f = status and log = "[]"
          and p = parse_status, OF wire l miss h near c is_status_of_parse [OF ps] wait]) (rule that)
  have hs1: "handshake W is_status_frame parse_status ?o (wait_time a) [] w = Some (Done info, log1, w1)"
    using hs ps by (simp add: status_outcome_def session_opts_defaults)
  have tb: "transfer_baud ?o = arg_transfer_baud a" by (simp add: session_opts_def)
  have "serves_all ?hear near (mcu l1) (line_rate l1) sts (fold obey (map frame sts) ?c2)"
    unfolding l1(4,5)
    by (rule stc89_serves_plan [OF ps pl session_opts_defaults(2,3) ch400])
      (use rel tune in \<open>simp_all add: session_opts_defaults tb\<close>)
  from session_heard [OF uart hs1 l1(1-3) dm pl this] that show thesis by blast
qed

text \<open>
  What a chip and a command line must have in common: a status packet that can be parsed and tells the
  option byte, a clock that reaches the transfer baud within the tolerance, chatter that fits
  the buffers, and a patience that covers the chip's sleep.
\<close>

definition within_reach :: "frame \<Rightarrow> (u8 list \<Rightarrow> u8 list) \<Rightarrow> args \<Rightarrow> target_info \<Rightarrow> stc89_chip \<Rightarrow> bool" where
  "within_reach status chatter a info c \<longleftrightarrow>
     \<not> released c
     \<and> parse_status status (arg_handshake_baud a) = Inr info \<and> option_bytes info = [option_byte c]
     \<and> (\<exists>n. brief n chatter \<and> n + length (payload status) \<le> 248)
     \<and> (\<forall>r. timer_reload (measured_hz info) (arg_transfer_baud a) = Inr r \<longrightarrow>
          in_tune (crystal c) (Divides (256 - unat r)) (arg_transfer_baud a))
     \<and> READ_POLL + int (asleep c) * (PULSE_EVERY + READ_POLL) < wait_time a"

lemma flash_session_programs_chip:
  assumes wire: "polled_wire W (stc89_hear status chatter) near on_line clk"
    and l: "on_line w l" "all_sent l" "incoming l = []" and reach: "within_reach status chatter a info (mcu l)"
    and dm: "arg_drain_mode a = TcDrain" and pl: "plan info (FlashJob img wo) (session_opts a) = Inr sts"
  obtains out w' l' where "drive_session W a (FlashJob img wo) w = Some (Success, out, w')" "on_line w' l'"
    "released (mcu l')" "option_byte (mcu l') = option_byte (mcu l)"
    "\<And>x. flash (mcu l') x =
      (if x < length img then img ! x
       else if x < erase_blocks_for (length img) * ERASE_BLOCK then 0xFF
       else flash (mcu l) x)"
proof -
  obtain n where n: "brief n chatter" "n + length (payload status) \<le> 248"
    using reach by (auto simp: within_reach_def)
  have r: "\<not> released (mcu l)" "parse_status status (arg_handshake_baud a) = Inr info"
    "option_bytes info = [option_byte (mcu l)]"
    "\<And>r. timer_reload (measured_hz info) (arg_transfer_baud a) = Inr r \<Longrightarrow>
      in_tune (crystal (mcu l)) (Divides (256 - unat r)) (arg_transfer_baud a)"
    "READ_POLL + int (asleep (mcu l)) * (PULSE_EVERY + READ_POLL) < wait_time a"
    using reach by (auto simp: within_reach_def)
  obtain out w' l' where s: "drive_session W a (FlashJob img wo) w = Some (Success, out, w')" "on_line w' l'"
    "mcu l' = fold obey (map frame sts) (mcu l\<lparr>asleep := 0, tuned := Follows (arg_handshake_baud a)\<rparr>)"
    by (rule uart_session [OF wire l r(1) n r(2) disjI1 [OF dm] pl r(4) r(5)])
  have "option_byte (mcu l') = option_byte (mcu l)"
    unfolding s(3) using plan_keeps_option [OF pl] r(3) by simp
  from that [OF s(1,2) _ this] plan_releases [OF pl] show thesis
    by (simp add: s(3) flash_plan_in_chip [OF pl])
qed

section \<open>A serial port with such a chip\<close>

text \<open>
  The port holds back what is written until it is drained or read from, and sends it at the rate
  it has then; the chip's answer is garbled when it is read at a rate the chip does not share. A read takes a
  millisecond, or the whole poll when there is nothing to read.
\<close>

record ('c, 'r) uart =
  uart_clock :: int
  held :: "u8 list option"
  uart_line :: "('c, 'r) line"

definition settled :: "('c, 'r) hearing \<Rightarrow> ('c, 'r) uart \<Rightarrow> ('c, 'r) line" where
  "settled hear u = (case held u of None \<Rightarrow> uart_line u | Some bs \<Rightarrow> heard hear bs (uart_line u))"

definition transmit :: "('c, 'r) hearing \<Rightarrow> ('c, 'r) uart \<Rightarrow> ('c, 'r) uart" where
  "transmit hear u = u\<lparr>held := None, uart_line := settled hear u\<rparr>"

definition uart_read ::
    "('c, 'r) hearing \<Rightarrow> (u32 \<Rightarrow> 'r \<Rightarrow> bool) \<Rightarrow> nat \<Rightarrow> ('c, 'r) uart \<Rightarrow> (io_error + u8 list) \<times> ('c, 'r) uart" where
  "uart_read hear legible n u =
     (let u = transmit hear u; l = uart_line u; got = take n (incoming l)
      in if incoming l = [] then (Inl (IoError TimedOut ''''), u\<lparr>uart_clock := uart_clock u + READ_POLL\<rparr>)
         else (Inr (if legible (line_rate l) (reply_rate l) then got else map (\<lambda>b. NOT b) got),
               u\<lparr>uart_clock := uart_clock u + millis 1, uart_line := l\<lparr>incoming := drop n (incoming l)\<rparr>\<rparr>))"

definition uart_port :: "('c, 'r) hearing \<Rightarrow> (u32 \<Rightarrow> 'r \<Rightarrow> bool) \<Rightarrow> ('c, 'r) uart serial_port" where
  "uart_port hear legible = \<lparr>
     port_open = (\<lambda>s u. (Inr 3, u\<lparr>uart_line := uart_line u\<lparr>line_rate := port_baud s\<rparr>\<rparr>)),
     port_write_all = (\<lambda>bs u. (Inr (), u\<lparr>held := Some (case held u of None \<Rightarrow> bs | Some old \<Rightarrow> old @ bs)\<rparr>)),
     port_read = uart_read hear legible,
     port_set_baud_rate = (\<lambda>b u. (Inr (), u\<lparr>uart_line := uart_line u\<lparr>line_rate := b\<rparr>\<rparr>)),
     port_flush = (\<lambda>u. (Inr (), u)),
     available_ports = (\<lambda>u. (Inr [''/dev/ttyUSB0''], u)), io_to_serial = message,
     libc_ioctl = (\<lambda>_ _ _ u. (0, u)), libc_tcdrain = (\<lambda>_ u. (0, transmit hear u)),
     last_os_error = (\<lambda>_. IoError Other ''''),
     os_now = (\<lambda>u. (uart_clock u, u)), os_sleep = (\<lambda>d u. u\<lparr>uart_clock := uart_clock u + max 0 d\<rparr>)\<rparr>"

text \<open>The line as the driver sees it: what has settled, and nothing held when all is said to be sent.\<close>

definition carries :: "('c, 'r) hearing \<Rightarrow> ('c, 'r) uart \<Rightarrow> ('c, 'r) line \<Rightarrow> bool" where
  "carries hear u l \<longleftrightarrow> l\<lparr>all_sent := True\<rparr> = (settled hear u)\<lparr>all_sent := True\<rparr> \<and> (all_sent l \<longrightarrow> held u = None)"

lemma carries_settled:
  "carries hear u l \<Longrightarrow> line_rate (settled hear u) = line_rate l \<and> mcu (settled hear u) = mcu l
     \<and> reply_rate (settled hear u) = reply_rate l \<and> incoming (settled hear u) = incoming l"
  by (cases l; cases "settled hear u") (simp add: carries_def)

lemma carries_sent:
  "carries hear u l \<Longrightarrow> all_sent l \<Longrightarrow> held u = None \<and> line_rate (uart_line u) = line_rate l
     \<and> mcu (uart_line u) = mcu l \<and> reply_rate (uart_line u) = reply_rate l \<and> incoming (uart_line u) = incoming l"
  using carries_settled [of hear u l] by (simp add: carries_def settled_def)

interpretation fifo: polled_wire "wire_impl OtherUnix (uart_port hear legible)" hear legible
    "\<lambda>s. carries hear (port s)" "uart_clock \<circ> port"
  for hear legible
proof unfold_locales
  fix w :: "('a, 'b) uart serial_wire" and l bs
  assume l: "carries hear (port w) l" "all_sent l" "incoming l = []"
  from carries_sent [OF l(1,2)] l(3)
  show "\<exists>w'. wire_write_all (wire_impl OtherUnix (uart_port hear legible)) bs w = (Inr (), w')
    \<and> carries hear (port w') (heard hear bs l) \<and> (uart_clock \<circ> port) w' = (uart_clock \<circ> port) w"
    by (auto simp: wire_impl_def uart_port_def on_port_def carries_def settled_def heard_def split: prod.splits)
next
  fix w :: "('a, 'b) uart serial_wire" and l b
  assume l: "carries hear (port w) l" "all_sent l"
  from carries_sent [OF l]
  show "\<exists>w'. wire_set_baud (wire_impl OtherUnix (uart_port hear legible)) b w = (Inr (), w')
    \<and> carries hear (port w') (l\<lparr>line_rate := b\<rparr>)"
    by (auto simp: wire_impl_def uart_port_def on_port_def serial_set_baud_def carries_def settled_def)
next
  fix w :: "('a, 'b) uart serial_wire" and l
  assume l: "carries hear (port w) l"
  then show "\<exists>w'. wire_drain (wire_impl OtherUnix (uart_port hear legible)) w = (Inr (), w')
    \<and> carries hear (port w') (l\<lparr>all_sent := True\<rparr>)"
    by (auto simp: wire_impl_def uart_port_def on_port_def serial_drain_def carries_def transmit_def settled_def)
next
  fix w :: "('a, 'b) uart serial_wire" and l n
  assume l: "carries hear (port w) l" and leg: "incoming l = [] \<or> legible (line_rate l) (reply_rate l)"
  from carries_settled [OF l] leg l
  show "\<exists>w'. wire_read (wire_impl OtherUnix (uart_port hear legible)) n w = (Inr (take n (incoming l)), w')
    \<and> carries hear (port w') (l\<lparr>incoming := drop n (incoming l), all_sent := True\<rparr>)"
    by (auto simp: wire_impl_def uart_port_def on_port_def serial_read_def uart_read_def transmit_def Let_def
        carries_def settled_def)
next
  fix w :: "('a, 'b) uart serial_wire" and l n
  assume l: "carries hear (port w) l" and "incoming l = []"
  with carries_settled [OF l]
  show "(uart_clock \<circ> port) w < (uart_clock \<circ> port) (snd (wire_read (wire_impl OtherUnix (uart_port hear legible)) n w))
    \<and> (uart_clock \<circ> port) (snd (wire_read (wire_impl OtherUnix (uart_port hear legible)) n w)) \<le> (uart_clock \<circ> port) w + READ_POLL"
    by (auto simp: wire_impl_def uart_port_def uart_read_def transmit_def Let_def READ_POLL_def millis_def)
qed (auto simp: wire_impl_def uart_port_def on_port_def carries_def settled_def split: option.splits)

text \<open>
  A chip at 11.0592 MHz that misses five pulses and holds zeros in its flash, on a line with chatter
  before every answer.
\<close>

definition sample_chip :: stc89_chip where
  "sample_chip = \<lparr>asleep = 5, crystal = 11059200, tuned = Follows 0, flash = (\<lambda>_. 0), option_byte = 0xFD,
     released = False\<rparr>"

definition sample_chatter :: "u8 list \<Rightarrow> u8 list" where
  "sample_chatter bs = [0x46, 0x00, 0xB9, of_nat (length bs)]"

abbreviation sample_hear :: "(stc89_chip, int \<times> tuning) hearing" where
  "sample_hear \<equiv> stc89_hear sample_packet sample_chatter"

definition sample_line :: "(stc89_chip, int \<times> tuning) line" where
  "sample_line = \<lparr>line_rate = 2400, mcu = sample_chip, reply_rate = (11059200, Follows 0), incoming = [],
     all_sent = True\<rparr>"

definition uart_platform :: "string \<Rightarrow> (stc89_chip, int \<times> tuning) uart platform" where
  "uart_platform txt =
     \<lparr>target = OtherUnix, serial = uart_port sample_hear near, read_to_string = (\<lambda>_ w. (Inr txt, w))\<rparr>"

definition uart_start :: "(stc89_chip, int \<times> tuning) uart" where
  "uart_start = \<lparr>uart_clock = 0, held = None, uart_line = sample_line\<rparr>"

lemma uart_opens:
  "serial_open OtherUnix (uart_port sample_hear near) path 2400 p uart_start
     = Inr \<lparr>port = uart_start, baud = 2400, fd = 3\<rparr>"
  by (simp add: serial_open_def uart_port_def uart_start_def sample_line_def)

lemma sample_carries: "carries sample_hear uart_start sample_line"
  by (simp add: carries_def settled_def uart_start_def)

lemma sample_brief: "brief 4 sample_chatter"
  by (simp add: brief_def sample_chatter_def frame_consts)

lemma sample_within_reach:
  assumes "arg_handshake_baud a = 2400" and "arg_transfer_baud a = 115200" and "wait_s a = 30"
  shows "within_reach sample_packet sample_chatter a sample_info (mcu sample_line)"
proof -
  have "in_tune (crystal sample_chip) (Divides (256 - unat r)) 115200"
    if "timer_reload (measured_hz sample_info) 115200 = Inr r" for r
    using that sample_reload by (auto simp: session_options_default_def in_tune_def sample_chip_def)
  moreover have "4 + length (payload sample_packet) \<le> 248" by (simp add: sample_status_def frame_mcu_def)
  ultimately show ?thesis
    using assms sample_parses sample_brief
    by (auto simp: within_reach_def sample_line_def sample_fields wait_time_def READ_POLL_def PULSE_EVERY_def
        millis_def sample_chip_def)
qed

end
