(* ===== verification/Rust_Format.thy ===== *)
theory Rust_Format imports Rust_Text begin

text \<open>
  More of the standard library's formatting, for the texts the program prints: \<open>{:?}\<close> of
  texts, characters and vectors, \<open>{:04X}\<close>, and \<open>{:.3}\<close> of a quotient of two integers taken
  as \<open>f64\<close>. Which characters above ASCII the library's Unicode tables show as they are is a
  parameter, \<open>shown\<close>.
\<close>

section \<open>Characters of a text\<close>

definition utf8_width :: "char \<Rightarrow> nat" where
  "utf8_width c =
     (let n = of_char c :: nat in if n < 0x80 then 1 else if n < 0xE0 then 2 else if n < 0xF0 then 3 else 4)"

function utf8_chars :: "string \<Rightarrow> string list" where
  "utf8_chars s =
     (case s of
        [] \<Rightarrow> []
      | c # cs \<Rightarrow> take (utf8_width c) s # utf8_chars (drop (utf8_width c) s))"
  by pat_completeness auto
termination
  by (relation "measure length") (auto simp: utf8_width_def Let_def)

declare utf8_chars.simps [simp del]

fun code_point :: "string \<Rightarrow> nat" where
  "code_point [a] = of_char a"
| "code_point [a, b] = (of_char a mod 0x20) * 0x40 + of_char b mod 0x40"
| "code_point [a, b, c] =
     (of_char a mod 0x10) * 0x1000 + (of_char b mod 0x40) * 0x40 + of_char c mod 0x40"
| "code_point [a, b, c, d] =
     (of_char a mod 0x08) * 0x40000 + (of_char b mod 0x40) * 0x1000
       + (of_char c mod 0x40) * 0x40 + of_char d mod 0x40"
| "code_point _ = 0"

text \<open>Both invert the encoding of every scalar value.\<close>

lemma lead_mod [simp]:
  "x < 0x20 \<Longrightarrow> (0xC0 + x) mod 0x20 = (x :: nat)"
  "x < 0x10 \<Longrightarrow> (0xE0 + x) mod 0x10 = (x :: nat)"
  "x < 0x08 \<Longrightarrow> (0xF0 + x) mod 0x08 = (x :: nat)"
  "x < 0x40 \<Longrightarrow> (0x80 + x) mod 0x40 = (x :: nat)"
proof -
  have l: "x < b \<Longrightarrow> (k * b + x) mod b = x" for x b k :: nat by simp
  show "x < 0x20 \<Longrightarrow> (0xC0 + x) mod 0x20 = x" using l [of x "0x20" "6"] by simp
  show "x < 0x10 \<Longrightarrow> (0xE0 + x) mod 0x10 = x" using l [of x "0x10" "14"] by simp
  show "x < 0x08 \<Longrightarrow> (0xF0 + x) mod 0x08 = x" using l [of x "0x08" "30"] by simp
  show "x < 0x40 \<Longrightarrow> (0x80 + x) mod 0x40 = x" using l [of x "0x40" "2"] by simp
qed

lemma code_point_bytes:
  "a < 0x20 \<Longrightarrow> b < 0x40 \<Longrightarrow> code_point [char_of (0xC0 + a), char_of (0x80 + b)] = a * 0x40 + b"
  "a < 0x10 \<Longrightarrow> b < 0x40 \<Longrightarrow> c < 0x40 \<Longrightarrow>
     code_point [char_of (0xE0 + a), char_of (0x80 + b), char_of (0x80 + c)] = a * 0x1000 + b * 0x40 + c"
  "a < 0x08 \<Longrightarrow> b < 0x40 \<Longrightarrow> c < 0x40 \<Longrightarrow> e < 0x40 \<Longrightarrow>
     code_point [char_of (0xF0 + a), char_of (0x80 + b), char_of (0x80 + c), char_of (0x80 + e)]
       = a * 0x40000 + b * 0x1000 + c * 0x40 + e"
  by simp_all

lemma code_point_utf8 [simp]:
  assumes "n < 0x110000"
  shows "code_point (utf8 n) = n"
proof -
  have d: "n div 0x1000 = n div 0x40 div 0x40" "n div 0x40000 = n div 0x40 div 0x40 div 0x40"
    by (simp_all add: div_mult2_eq [symmetric])
  have m: "n div 0x40 * 0x40 + n mod 0x40 = n"
    "n div 0x40 div 0x40 * 0x40 + n div 0x40 mod 0x40 = n div 0x40"
    "n div 0x40 div 0x40 div 0x40 * 0x40 + n div 0x40 div 0x40 mod 0x40 = n div 0x40 div 0x40"
    by (rule div_mult_mod_eq)+
  have l: "x mod 0x40 < 0x40" for x :: nat by simp
  consider "n < 0x80" | "0x80 \<le> n" "n < 0x800" | "0x800 \<le> n" "n < 0x10000" | "0x10000 \<le> n"
    by linarith
  then show ?thesis
  proof cases
    case 1
    then show ?thesis by (simp add: utf8_def)
  next
    case 2
    then have "n div 0x40 < 0x20" by linarith
    from code_point_bytes(1) [OF this l [of n]] m(1) 2 show ?thesis by (simp add: utf8_def)
  next
    case 3
    then have "n div 0x40 div 0x40 < 0x10" by linarith
    note code_point_bytes(2) [OF this l [of "n div 0x40"] l [of n]]
    also have "n div 0x40 div 0x40 * 0x1000 + n div 0x40 mod 0x40 * 0x40 + n mod 0x40 = n"
      using m(1,2) by linarith
    finally have "code_point [char_of (0xE0 + n div 0x40 div 0x40), char_of (0x80 + n div 0x40 mod 0x40),
        char_of (0x80 + n mod 0x40)] = n" .
    moreover have "utf8 n = [char_of (0xE0 + n div 0x40 div 0x40), char_of (0x80 + n div 0x40 mod 0x40),
        char_of (0x80 + n mod 0x40)]" using 3 d(1) by (simp add: utf8_def)
    ultimately show ?thesis by (simp only:)
  next
    case 4
    with assms have "n div 0x40 div 0x40 div 0x40 < 0x08" by linarith
    note code_point_bytes(3) [OF this l [of "n div 0x40 div 0x40"] l [of "n div 0x40"] l [of n]]
    also have "n div 0x40 div 0x40 div 0x40 * 0x40000 + n div 0x40 div 0x40 mod 0x40 * 0x1000
        + n div 0x40 mod 0x40 * 0x40 + n mod 0x40 = n" using m by linarith
    finally have "code_point [char_of (0xF0 + n div 0x40 div 0x40 div 0x40),
        char_of (0x80 + n div 0x40 div 0x40 mod 0x40), char_of (0x80 + n div 0x40 mod 0x40),
        char_of (0x80 + n mod 0x40)] = n" .
    moreover have "utf8 n = [char_of (0xF0 + n div 0x40 div 0x40 div 0x40),
        char_of (0x80 + n div 0x40 div 0x40 mod 0x40), char_of (0x80 + n div 0x40 mod 0x40),
        char_of (0x80 + n mod 0x40)]" using 4 d by (simp add: utf8_def)
    ultimately show ?thesis by (simp only:)
  qed
qed

lemma utf8_width_char: "(x :: nat) < 0x100 \<Longrightarrow> utf8_width (char_of x) =
    (if x < 0x80 then 1 else if x < 0xE0 then 2 else if x < 0xF0 then 3 else 4)"
  by (simp add: utf8_width_def)

lemma utf8_width_utf8 [simp]:
  assumes "n < 0x110000"
  shows "utf8_width (hd (utf8 n)) = length (utf8 n)"
proof -
  have "n < 0x800 \<Longrightarrow> n div 0x40 < 32" "n < 0x10000 \<Longrightarrow> n div 0x1000 < 16" "n div 0x40000 < 8"
    using assms by linarith+
  moreover consider "n < 0x80" | "0x80 \<le> n" "n < 0x800" | "0x800 \<le> n" "n < 0x10000" | "0x10000 \<le> n"
    by linarith
  ultimately show ?thesis
    by cases (simp_all add: utf8_def utf8_width_char del: div_less_iff_less_mult)
qed

lemma utf8_chars_utf8 [simp]: "\<forall>n \<in> set ns. n < 0x110000 \<Longrightarrow> utf8_chars (concat (map utf8 ns)) = map utf8 ns"
proof (induction ns)
  case Nil
  then show ?case by (simp add: utf8_chars.simps)
next
  case (Cons n ns)
  obtain c cs where u: "utf8 n = c # cs" using length_utf8_pos [of n] by (cases "utf8 n") auto
  with utf8_width_utf8 [of n] Cons.prems have "utf8_width c = length (utf8 n)" by simp
  with Cons show ?case by (subst utf8_chars.simps) (simp add: u)
qed

section \<open>Debug texts\<close>

definition escape_debug :: "(nat \<Rightarrow> bool) \<Rightarrow> nat \<Rightarrow> nat \<Rightarrow> string" where
  "escape_debug shown quote n =
     (let backslash = CHR 0x5C in
      if n = 0x00 then [backslash, CHR ''0'']
      else if n = 0x09 then [backslash, CHR ''t'']
      else if n = 0x0D then [backslash, CHR ''r'']
      else if n = 0x0A then [backslash, CHR ''n'']
      else if n = 0x5C \<or> n = quote then [backslash, char_of n]
      else if 0x20 \<le> n \<and> n < 0x7F \<or> 0x80 \<le> n \<and> shown n then utf8 n
      else [backslash, CHR ''u'', CHR 0x7B] @ fmt_hex 1 n @ [CHR 0x7D])"

definition debug_str :: "(nat \<Rightarrow> bool) \<Rightarrow> string \<Rightarrow> string" where
  "debug_str shown s =
     [CHR 0x22] @ concat (map (\<lambda>q. escape_debug shown 0x22 (code_point q)) (utf8_chars s)) @ [CHR 0x22]"

definition debug_char :: "(nat \<Rightarrow> bool) \<Rightarrow> nat \<Rightarrow> string" where
  "debug_char shown n = [CHR 0x27] @ escape_debug shown 0x27 n @ [CHR 0x27]"

fun comma_separated :: "string list \<Rightarrow> string" where
  "comma_separated [] = []"
| "comma_separated [s] = s"
| "comma_separated (s # ss) = s @ '', '' @ comma_separated ss"

definition debug_vec :: "nat list \<Rightarrow> string" where
  "debug_vec ns = ''['' @ comma_separated (map fmt_dec ns) @ '']''"

section \<open>Numbers\<close>

definition upper_digit :: "nat \<Rightarrow> char" where
  "upper_digit d = (if d < 10 then char_of (48 + d) else char_of (55 + d))"

definition fmt_hex_upper :: "nat \<Rightarrow> nat \<Rightarrow> string" where
  "fmt_hex_upper w n =
     (let s = map upper_digit (radix_digits 16 n) in replicate (w - length s) (CHR ''0'') @ s)"

text \<open>Division rounded to the nearest, ties to even.\<close>

definition div_nearest :: "nat \<Rightarrow> nat \<Rightarrow> nat" where
  "div_nearest a b =
     (let q = a div b; r = a mod b
      in if 2 * r < b \<or> 2 * r = b \<and> even q then q else q + 1)"

text \<open>\<open>u64 as f64\<close>: 53 bits are kept.\<close>

fun excess_bits :: "nat \<Rightarrow> nat" where
  "excess_bits n = (if n < 2 ^ 53 then 0 else Suc (excess_bits (n div 2)))"

declare excess_bits.simps [simp del]

definition u64_as_f64 :: "nat \<Rightarrow> nat" where
  "u64_as_f64 n = (let k = excess_bits n in div_nearest n (2 ^ k) * 2 ^ k)"

text \<open>
  A quotient below \<open>2 ^ 53\<close> as \<open>f64\<close>: \<open>(m, k)\<close> stands for \<open>m / 2 ^ k\<close>, with \<open>k\<close> the least
  that gives \<open>m\<close> its 53 bits.
\<close>

function f64_scale :: "nat \<Rightarrow> nat \<Rightarrow> nat \<Rightarrow> nat" where
  "f64_scale n d k = (if n = 0 \<or> 2 ^ 52 * d \<le> n * 2 ^ k then k else f64_scale n d (Suc k))"
  by pat_completeness auto
termination
  by (relation "measure (\<lambda>(n, d, k). 2 ^ 52 * d - n * 2 ^ k)") (auto simp: diff_less_mono2)

declare f64_scale.simps [simp del]

definition f64_div :: "nat \<Rightarrow> nat \<Rightarrow> nat \<times> nat" where
  "f64_div n d = (let k = f64_scale n d 0 in (div_nearest (n * 2 ^ k) d, k))"

text \<open>\<open>{:.3}\<close>\<close>

definition fmt_thousandths :: "nat \<Rightarrow> string" where
  "fmt_thousandths t =
     fmt_dec (t div 1000) @ ''.'' @ (let s = fmt_dec (t mod 1000) in replicate (3 - length s) (CHR ''0'') @ s)"

definition f64_thousandths :: "nat \<times> nat \<Rightarrow> nat" where
  "f64_thousandths = (\<lambda>(m, k). div_nearest (1000 * m) (2 ^ k))"

definition fmt_f64_3 :: "nat \<times> nat \<Rightarrow> string" where
  "fmt_f64_3 x = fmt_thousandths (f64_thousandths x)"

section \<open>Rounding twice\<close>

lemma div_nearest_bound:
  assumes "0 < b"
  shows "2 * \<bar>int (div_nearest a b * b) - int a\<bar> \<le> int b"
proof -
  let ?q = "a div b" and ?r = "a mod b"
  have a: "int a = int ?q * int b + int ?r" by (metis div_mult_mod_eq of_nat_add of_nat_mult)
  have r: "?r < b" using assms by simp
  show ?thesis
  proof (cases "2 * ?r < b \<or> 2 * ?r = b \<and> even ?q")
    case True
    then have "2 * ?r \<le> b" by auto
    moreover have "div_nearest a b = ?q" using True by (simp add: div_nearest_def Let_def)
    ultimately show ?thesis using a by simp
  next
    case False
    then have "b \<le> 2 * ?r" by auto
    moreover have "div_nearest a b = ?q + 1" using False by (simp add: div_nearest_def Let_def)
    ultimately show ?thesis using a r by (simp add: algebra_simps)
  qed
qed

lemma f64_scale_reaches: "0 < n \<Longrightarrow> 2 ^ 52 * d \<le> n * 2 ^ f64_scale n d k"
proof (induction n d k rule: f64_scale.induct)
  case (1 n d k)
  then show ?case by (cases "2 ^ 52 * d \<le> n * 2 ^ k") (simp_all add: f64_scale.simps [of n d k])
qed

lemma u64_as_f64_exact [simp]: "n < 2 ^ 53 \<Longrightarrow> u64_as_f64 n = n"
  by (simp add: u64_as_f64_def excess_bits.simps div_nearest_def)

text \<open>
  Two roundings, to 53 bits and to three decimals, are as good as one: of a number below
  \<open>2 ^ 52\<close> millionths the nearest thousandth is shown.
\<close>

lemma f64_thousandths_nearest:
  assumes "0 < n" and "n < 2 ^ 52"
  shows "\<bar>1000 * int (f64_thousandths (f64_div n 1000000)) - int n\<bar> \<le> 500"
proof -
  define k where "k = f64_scale n 1000000 0"
  define m where "m = div_nearest (n * 2 ^ k) 1000000"
  define t where "t = div_nearest (1000 * m) (2 ^ k)"
  define p where "p = (2 :: int) ^ k"
  have "2 ^ 52 * 1000000 \<le> n * 2 ^ k" using f64_scale_reaches [OF assms(1)] unfolding k_def .
  also have "\<dots> \<le> 2 ^ 52 * 2 ^ k" using assms(2) by simp
  finally have "(1000000 :: nat) \<le> 2 ^ k" by simp
  then have p: "1000000 \<le> p" unfolding p_def by (metis of_nat_le_iff of_nat_numeral of_nat_power)
  have m: "2 * \<bar>int m * 1000000 - int n * p\<bar> \<le> 1000000"
    using div_nearest_bound [of 1000000 "n * 2 ^ k"] by (simp add: m_def p_def)
  have t: "2 * \<bar>int t * p - 1000 * int m\<bar> \<le> p"
    using div_nearest_bound [of "2 ^ k" "1000 * m"] by (simp add: t_def p_def)
  have tri: "\<bar>2 * (1000 * x + y)\<bar> \<le> 1000 * (2 * \<bar>x\<bar>) + 2 * \<bar>y\<bar>" for x y :: int
    by (auto simp: abs_if)
  have "2 * \<bar>1000 * int t - int n\<bar> * p = \<bar>2 * ((1000 * int t - int n) * p)\<bar>"
    using p by (simp add: abs_mult)
  also have "\<dots> = \<bar>2 * (1000 * (int t * p - 1000 * int m) + (int m * 1000000 - int n * p))\<bar>"
    by (simp add: algebra_simps)
  also have "\<dots> \<le> 1000 * (2 * \<bar>int t * p - 1000 * int m\<bar>) + 2 * \<bar>int m * 1000000 - int n * p\<bar>"
    using tri [of "int t * p - 1000 * int m" "int m * 1000000 - int n * p"] .
  also have "\<dots> \<le> 1000 * p + p" using m t p by linarith
  finally have "2 * \<bar>1000 * int t - int n\<bar> * p \<le> 1001 * p" by simp
  with p have "2 * \<bar>1000 * int t - int n\<bar> \<le> 1001" by (simp add: mult_le_cancel_right)
  moreover have "x \<le> 500" if "2 * x \<le> 1001" for x :: int using that by linarith
  ultimately have "\<bar>1000 * int t - int n\<bar> \<le> 500" by blast
  moreover have "f64_thousandths (f64_div n 1000000) = t"
    by (simp add: f64_div_def Let_def f64_thousandths_def k_def m_def t_def)
  ultimately show ?thesis by simp
qed

end
