(* ===== verification/Messages.thy ===== *)
theory Messages imports Cli Rust_Format begin

text \<open>
  The texts the program prints: the \<open>Display\<close> and \<open>Debug\<close> implementations of the errors of
  \<open>frame.rs\<close>, \<open>session.rs\<close>, \<open>protocol/mod.rs\<close>, \<open>ihex.rs\<close> and \<open>driver.rs\<close>, and the formats and the
  usage text of \<open>bin/stcbsl.rs\<close>. A text is its UTF-8 bytes. \<open>shown\<close> says which characters above
  ASCII a Debug text shows as they are.
\<close>

section \<open>Building blocks\<close>

definition EM_DASH :: string where "EM_DASH = utf8 0x2014"
definition ELLIPSIS :: string where "ELLIPSIS = utf8 0x2026"
definition NEWLINE :: string where "NEWLINE = [CHR 0x0A]"

definition hex_byte :: "u8 \<Rightarrow> string" where
  "hex_byte b = fmt_hex 2 (unat b)"

definition println :: "string \<Rightarrow> string" where
  "println s = s @ NEWLINE"

section \<open>Frames and sessions\<close>

text \<open>\<open>#[derive(Debug)]\<close> of \<open>Dir\<close>, and the written \<open>Debug\<close> of \<open>Frame\<close>.\<close>

fun dir_debug :: "dir \<Rightarrow> string" where
  "dir_debug HostToMcu = ''HostToMcu''"
| "dir_debug McuToHost = ''McuToHost''"

definition frame_debug :: "frame \<Rightarrow> string" where
  "frame_debug f =
     ''Frame { '' @ (case dir f of HostToMcu \<Rightarrow> ''host->mcu'' | McuToHost \<Rightarrow> ''mcu->host'')
     @ '' cmd=0x'' @ hex_byte (cmd f) @ '' payload='' @ hex (payload f) @ '' }''"

fun frame_error_text :: "frame_error \<Rightarrow> string" where
  "frame_error_text (TooShort n) = ''frame too short ('' @ fmt_dec n @ '' bytes)''"
| "frame_error_text (BadMagic m0 m1) = ''bad magic '' @ hex_byte m0 @ '' '' @ hex_byte m1"
| "frame_error_text (BadLength declared actual) =
     ''bad length: declared '' @ fmt_dec (unat declared) @ '', actual '' @ fmt_dec (unat actual)"
| "frame_error_text (BadTerminator b) = ''bad terminator 0x'' @ hex_byte b @ '' (want 0x16)''"
| "frame_error_text (BadChecksum computed got) =
     ''bad checksum: computed 0x'' @ hex_byte computed @ '', got 0x'' @ hex_byte got"
| "frame_error_text (BadDir b) = ''unknown direction byte 0x'' @ hex_byte b"
| "frame_error_text (ImplausibleLength l) = ''implausible LEN '' @ fmt_dec (unat l)"

fun session_error_text :: "session_error \<Rightarrow> string" where
  "session_error_text NotAwaiting = ''a reply arrived when none was expected''"
| "session_error_text (WrongCommand st want got) =
     st @ '': expected reply command 0x'' @ hex_byte want @ '', got 0x'' @ hex_byte got"
| "session_error_text (WrongDirection st got) = st @ '': reply carries direction '' @ dir_debug got"
| "session_error_text (NotAnEcho st got) =
     st @ '': reply is not an echo of the request ('' @ frame_debug got @ '')''"
| "session_error_text (WrongPayload st want got) =
     st @ '': expected payload ['' @ hex want @ ''], got ['' @ hex got @ '']''"
| "session_error_text (WrongPayloadLen st want got) =
     st @ '': expected '' @ fmt_dec want @ '' payload bytes, got '' @ fmt_dec got"
| "session_error_text (BlockAckMismatch addr want got) =
     ''block at 0x'' @ fmt_hex 4 (unat addr) @ '': MCU checksummed 0x'' @ hex_byte got
     @ '', we sent 0x'' @ hex_byte want @ '' '' @ EM_DASH
     @ '' flash is now in an INDETERMINATE state; power-cycle and reflash''"

section \<open>The protocol and the image\<close>

fun protocol_error_text :: "protocol_error \<Rightarrow> string" where
  "protocol_error_text (NotAStatusFrame c) =
     ''expected the status packet, got command 0x'' @ hex_byte c"
| "protocol_error_text (ShortStatus got want) =
     ''status payload is '' @ fmt_dec got @ '' bytes, expected '' @ fmt_dec want"
| "protocol_error_text (InconsistentFrequency ws) =
     ''the eight frequency words disagree ('' @ debug_vec (map unat ws) @ '') '' @ EM_DASH
     @ '' the handshake measurement is unreliable''"
| "protocol_error_text (ImplausibleFrequency hz) =
     ''measured frequency '' @ fmt_dec (unat hz) @ '' Hz is out of range for this part''"
| "protocol_error_text (UnreachableBaud b reload) =
     ''transfer baud '' @ fmt_dec (unat b) @ '' needs timer reload '' @ fmt_int reload
     @ '', which is not an 8-bit value''"
| "protocol_error_text (ImageTooLarge img capacity) =
     ''image is '' @ fmt_dec img @ '' bytes; this part has '' @ fmt_dec capacity
     @ '' bytes of code flash''"
| "protocol_error_text EmptyImage = ''image contains no data''"
| "protocol_error_text (UnknownChipSize c) =
     ''chip id '' @ hex c @ '' is not in our (single-capture) table, so the flash size is unknown ''
     @ EM_DASH @ '' pass an explicit block count''"
| "protocol_error_text (EraseTooLarge blocks) =
     ''erase block count '' @ fmt_dec blocks @ '' does not fit in one byte''"

text \<open>The \<open>why\<close> of \<open>HexError::BadRecord\<close>, as the parser makes it.\<close>

fun bad_record_text :: "(nat \<Rightarrow> bool) \<Rightarrow> bad_record \<Rightarrow> string" where
  "bad_record_text shown (NoStartCode s) =
     ''no '' @ [CHR 0x27, CHR '':'', CHR 0x27] @ '' start code: '' @ debug_str shown s"
| "bad_record_text shown TruncatedRecord = ''truncated record''"
| "bad_record_text shown (NonHexCharacter c) = ''non-hex character '' @ debug_char shown (unat c)"
| "bad_record_text shown (CountDisagrees count len) =
     ''byte count '' @ fmt_dec count @ '' disagrees with record length '' @ fmt_dec len"
| "bad_record_text shown BadType02Length = ''bad type-02 length''"
| "bad_record_text shown BadType04Length = ''bad type-04 length''"
| "bad_record_text shown (UnsupportedType t) = ''unsupported record type 0x'' @ hex_byte t"

fun hex_error_text :: "(nat \<Rightarrow> bool) \<Rightarrow> hex_error \<Rightarrow> string" where
  "hex_error_text shown HexEmpty = ''file is empty''"
| "hex_error_text shown HexNoData = ''file contains no data records''"
| "hex_error_text shown (HexBadRecord line why) =
     ''line '' @ fmt_dec line @ '': '' @ bad_record_text shown why"
| "hex_error_text shown (HexBadChecksum line computed got) =
     ''line '' @ fmt_dec line @ '': record checksum is 0x'' @ hex_byte got
     @ '', computed 0x'' @ hex_byte computed"
| "hex_error_text shown (HexAddressTooHigh line addr) =
     ''line '' @ fmt_dec line @ '': address 0x'' @ fmt_hex 8 (unat addr) @ '' is above 64 KB ''
     @ EM_DASH @ '' unsupported, the protocol's behaviour there is untested (spec item C-4)''"

section \<open>The driver\<close>

definition INDETERMINATE_ADVICE :: string where
  "INDETERMINATE_ADVICE =
     NEWLINE @ ''  flash is in an INDETERMINATE state '' @ EM_DASH
     @ '' part of the image was programmed. There is no read-back on this part, so the only safe ''
     @ ''move is to power-cycle and flash again.''"

fun driver_error_text :: "driver_error \<Rightarrow> string" where
  "driver_error_text (Io e) = ''I/O: '' @ message e"
| "driver_error_text (ProtocolFailed e) = protocol_error_text e"
| "driver_error_text (SessionFailed e) = session_error_text e"
| "driver_error_text (FrameFailed e) = frame_error_text e"
| "driver_error_text (Timeout lbl ms) = lbl @ '': no reply within '' @ fmt_dec (unat ms) @ '' ms''"
| "driver_error_text (NoBootloader waited_ms noise_bytes) =
     ''no bootloader after '' @ fmt_dec (unat waited_ms) @ '' ms ('' @ fmt_dec noise_bytes
     @ '' bytes of non-protocol noise seen). The BSL only runs after a COLD power-on and only ''
     @ ''listens for a few hundred milliseconds: switch the board off, start this command, then ''
     @ ''switch it on. A reset button will not do it.''"
| "driver_error_text (IndeterminateFlash inner) = driver_error_text inner @ INDETERMINATE_ADVICE"

fun note_text :: "log_note \<Rightarrow> string" where
  "note_text (IgnoringFrame c) = ''ignoring a frame with cmd 0x'' @ hex_byte c @ '' during sync''"
| "note_text (DiscardingMalformed e) =
     ''discarding a malformed frame during sync: '' @ frame_error_text e"
| "note_text (Switched settle b) =
     ''drained, settled '' @ fmt_dec (unat settle) @ '' ms at the old baud, switched to ''
     @ fmt_dec (unat b) @ ''; reading echo there''"
| "note_text (Rehunting e) = ''re-hunting after a bad frame: '' @ frame_error_text e"

end
