(* ===== verification/Cli_Text.thy ===== *)
theory Cli_Text imports Messages begin

text \<open>
  What \<open>bin/stcbsl.rs\<close> prints, byte for byte: the usage text, the message of every error of the
  command line and the text of every line of output, with the report of the target. Errors
  go to the standard error, everything else to the standard output.
\<close>

section \<open>The usage text\<close>

definition USAGE_LINES :: "string list" where
  "USAGE_LINES =
     [''stcbsl '' @ EM_DASH @ '' clean-room STC serial bootloader flasher (STC89 family)'',
      [],
      ''USAGE:'',
      ''  stcbsl [OPTIONS] <COMMAND>'',
      [],
      ''COMMANDS:'',
      ''  identify                  handshake, report what the chip says, let it run'',
      ''  erase [--blocks N]        erase code flash (whole chip unless --blocks)'',
      ''  write <FILE.hex>          erase what the image needs, program it, let it run'',
      ''  flash <FILE.hex>          alias for `write`'',
      ''  explain <FILE.hex>        offline: show the block plan for an image; no port'',
      ''  ports                     list serial ports on this machine'',
      [],
      ''OPTIONS:'',
      ''  -p, --port <DEV>          serial device, e.g. /dev/cu.usbserial-1110'',
      ''      --baud <N>            transfer baud                 [default 115200]'',
      ''      --handshake-baud <N>  handshake baud                [default 2400]'',
      ''      --parity <none|even>  wire parity                   [default none]'',
      ''      --wait <SECONDS>      how long to pulse for the BSL [default 30]'',
      ''      --drain-mode <M>      at each 8F/8E baud switch: tcdrain (tcdrain(2)'',
      ''                            the wire) | wire (flush only)  [default tcdrain]'',
      ''      --drain-margin <MS>   settle ms after the drain, before switching baud'',
      ''                            (matches stcgal's sleep(0.1)) [default 100]'',
      ''      --blocks <N>          erase block count (256 B each), `erase` only'',
      ''      --keep-options        write the option byte back (default for `write`)'',
      ''      --skip-options        do not send the option frame at all'',
      ''  -q, --quiet               only print the outcome'',
      ''  -h, --help                this text'',
      [],
      ''THE ONE THING TO KNOW:'',
      ''  The bootloader runs only after a COLD power-on and listens for a few'',
      ''  hundred milliseconds. So: switch the board OFF, start this command, then'',
      ''  switch it ON. A reset button does not work; DTR autoreset does not work on'',
      ''  these boards, and this tool deliberately does not pretend otherwise.'',
      [],
      ''  Every retry is a power cycle.'']"

definition USAGE :: string where
  "USAGE = concat (map println USAGE_LINES)"

section \<open>Error messages\<close>

fun cli_error_text :: "(nat \<Rightarrow> bool) \<Rightarrow> cli_error \<Rightarrow> string" where
  "cli_error_text shown (NeedsValue what) = what @ '' needs a value''"
| "cli_error_text shown (NotANumber what) = what @ '': not a number''"
| "cli_error_text shown (NotAnInteger what) = what @ '': not an integer (ms, may be negative)''"
| "cli_error_text shown (NotAByte what) = what @ '': not a byte''"
| "cli_error_text shown (ExpectedOneOf what got) =
     what @ '': expected '' @ (if what = ''--drain-mode'' then ''tcdrain|wire'' else ''none|even'')
     @ '', got '' @ debug_str shown got"
| "cli_error_text shown (UnknownOption arg) = ''unknown option '' @ debug_str shown arg"
| "cli_error_text shown NoCommand = ''no command; try --help''"
| "cli_error_text shown (UnknownCommand c) =
     ''unknown command '' @ debug_str shown c @ ''; try --help''"
| "cli_error_text shown (NeedsHexFile c) = ''`'' @ c @ ''` needs a .hex file''"
| "cli_error_text shown (CannotRead path e) = path @ '': '' @ message e"
| "cli_error_text shown (BadHexFile path e) = path @ '': '' @ hex_error_text shown e"
| "cli_error_text shown PortRequired = ''--port is required (try `stcbsl ports`)''"
| "cli_error_text shown (OpenFailed path e) = path @ '': '' @ e"
| "cli_error_text shown (DriverFailed e) = driver_error_text e"
| "cli_error_text shown (PlanFailed e) = protocol_error_text e"

section \<open>Lines of output\<close>

text \<open>The clock is shown in MHz with three decimals, from \<open>measured_hz as f64 / 1e6\<close>.\<close>

definition mhz_text :: "u64 \<Rightarrow> string" where
  "mhz_text hz = fmt_f64_3 (f64_div (u64_as_f64 (unat hz)) 1000000)"

text \<open>
  \<open>report_target\<close>. It reads the first frequency word, which a parsed status packet has.
\<close>

definition report_target :: "target_info \<Rightarrow> u32 \<Rightarrow> string" where
  "report_target info hb =
     println ''target:''
     @ println (''  model         '' @
         (case model info of None \<Rightarrow> ''unknown (chip id not in our table)'' | Some m \<Rightarrow> m))
     @ println (''  chip id       '' @ hex (chip_id info))
     @ println (''  BSL version   '' @ bsl_version info)
     @ (case (code_flash info, eeprom_flash info) of
          (Some c, Some e) \<Rightarrow>
            println (''  code flash    '' @ fmt_dec (c div 1024) @ '' KB'')
            @ println (''  EEPROM flash  '' @ fmt_dec (e div 1024) @ '' KB'')
        | _ \<Rightarrow> [])
     @ println (''  clock         '' @ mhz_text (measured_hz info)
         @ '' MHz  (MEASURED by the BSL this handshake, word 0x''
         @ fmt_hex_upper 4 (unat (freq_words info ! 0)) @ '' at '' @ fmt_dec (unat hb)
         @ '' baud '' @ EM_DASH @ '' not a stored constant, expect it to move run to run)'')
     @ println (''  option byte   '' @ hex (option_bytes info)
         @ ''  (read only '' @ EM_DASH
         @ '' the bit map is not known, so stcbsl only ever echoes it back)'')"

fun done_text :: "job \<Rightarrow> string" where
  "done_text Identify = println (''done '' @ EM_DASH @ '' chip released to its application'')"
| "done_text (EraseJob blocks) = println (''done '' @ EM_DASH @ '' code flash erased'')"
| "done_text (FlashJob img wo) =
     println (''done '' @ EM_DASH @ '' image programmed and the chip released to it.'')
     @ println (''There is no read-back on this part, so 'programmed' means every block's'')
     @ println ''checksum was acknowledged by the MCU, not that the flash was read back.''"

definition image_line :: "string \<Rightarrow> nat \<Rightarrow> string" where
  "image_line path n =
     println (''image: '' @ path @ '' '' @ EM_DASH @ '' '' @ fmt_dec n @ '' bytes'')"

definition lowest_note :: "u32 \<Rightarrow> string" where
  "lowest_note a =
     println (''  note: lowest address is 0x'' @ fmt_hex 4 (unat a) @ '', not 0 '' @ EM_DASH
       @ '' the 8051 starts at 0x0000'')"

definition gap_note :: "nat \<Rightarrow> string" where
  "gap_note n =
     println (''  note: '' @ fmt_dec n @ '' bytes are gaps in the hex, filled with 0x00'')"

definition erase_line :: "nat \<Rightarrow> nat \<Rightarrow> string" where
  "erase_line blocks region =
     println (''erase: '' @ fmt_dec blocks @ '' blocks x '' @ fmt_dec ERASE_BLOCK @ '' B = ''
       @ fmt_dec region @ '' B  (rule: NN = 2 x ceil(size/512))'')"

definition write_line :: "nat \<Rightarrow> string" where
  "write_line n =
     println (''write: '' @ fmt_dec n @ '' blocks x '' @ fmt_dec WRITE_BLOCK @ '' B'')"

definition block_line :: "nat \<Rightarrow> u8 \<Rightarrow> bool \<Rightarrow> string" where
  "block_line addr ack all_ff =
     println (''  0x'' @ fmt_hex 4 addr @ ''  ack 0x'' @ hex_byte ack
       @ (if all_ff then ''   (padding)'' else []))"

definition live_note :: "string" where
  "live_note =
     NEWLINE
     @ println ''The baud, link-test and option frames depend on the live status packet''
     @ println ''(measured frequency, chip id, current option byte), so they are not shown''
     @ println ''here: this tool never invents an option byte.''"

definition port_line :: "string \<Rightarrow> bool \<Rightarrow> string" where
  "port_line p hint =
     println (p @ (if hint then ''   (prefer the /dev/cu.* twin)'' else []))"

definition waiting_line :: "u64 \<Rightarrow> u32 \<Rightarrow> string \<Rightarrow> string" where
  "waiting_line s b path =
     println (''waiting up to '' @ fmt_dec (unat s) @ '' s for the bootloader at ''
       @ fmt_dec (unat b) @ '' baud on '' @ path)
     @ println ''  >>> POWER-CYCLE THE BOARD NOW (off, then on) <<<''"

definition send_line :: "string \<Rightarrow> string \<Rightarrow> nat option \<Rightarrow> string" where
  "send_line lbl h whole =
     println (''-> '' @ lbl)
     @ println (''   '' @ h @
         (case whole of None \<Rightarrow> [] | Some n \<Rightarrow> '' '' @ ELLIPSIS @ '' ('' @ fmt_dec n @ '' bytes)''))"

definition reply_line :: "u8 \<Rightarrow> nat \<Rightarrow> string" where
  "reply_line c n =
     println (''<- cmd 0x'' @ hex_byte c @ '', '' @ fmt_dec n @ '' payload bytes'')"

definition noise_line :: "nat \<Rightarrow> nat \<Rightarrow> string" where
  "noise_line n noise =
     println (''   discarded '' @ fmt_dec n @ '' non-protocol byte(s) ['' @ fmt_dec noise
       @ '' total] '' @ EM_DASH @ '' normal if the chip is still running an app that prints'')"

fun out_text :: "(nat \<Rightarrow> bool) \<Rightarrow> out_line \<Rightarrow> string" where
  "out_text shown UsageText = USAGE"
| "out_text shown (ImageLine path n) = image_line path n"
| "out_text shown (LowestNote a) = lowest_note a"
| "out_text shown (GapNote n) = gap_note n"
| "out_text shown (EraseLine blocks region) = erase_line blocks region"
| "out_text shown (WriteLine n) = write_line n"
| "out_text shown (BlockLine addr ack all_ff) = block_line addr ack all_ff"
| "out_text shown LiveNote = live_note"
| "out_text shown NoPortsFound = println ''no serial ports found''"
| "out_text shown (PortLine p hint) = port_line p hint"
| "out_text shown (WaitingLine s b path) = waiting_line s b path"
| "out_text shown (TargetLines info hb) = report_target info hb"
| "out_text shown (PlanLine n) = println (''plan: '' @ fmt_dec n @ '' frames'')"
| "out_text shown (DoneLine job) = done_text job"
| "out_text shown (SendLine lbl h whole) = send_line lbl h whole"
| "out_text shown (ReplyLine c n) = reply_line c n"
| "out_text shown (NoteLine n) = println (''   '' @ note_text n)"
| "out_text shown (NoiseLine n noise) = noise_line n noise"
| "out_text shown (ErrorLine e) = println (''stcbsl: '' @ cli_error_text shown e)"

fun to_stderr :: "out_line \<Rightarrow> bool" where
  "to_stderr (ErrorLine e) = True"
| "to_stderr _ = False"

definition stdout_text :: "(nat \<Rightarrow> bool) \<Rightarrow> out_line list \<Rightarrow> string" where
  "stdout_text shown out = concat (map (out_text shown) (filter (\<lambda>l. \<not> to_stderr l) out))"

definition stderr_text :: "(nat \<Rightarrow> bool) \<Rightarrow> out_line list \<Rightarrow> string" where
  "stderr_text shown out = concat (map (out_text shown) (filter to_stderr out))"

end
