(* ===== verification/Cli_Report.thy ===== *)
theory Cli_Report imports Cli_Session Cli_Text begin

text \<open>
  What the user is told of a session that stops half way. The frames on the tape are
  set against the steps of the plan; when some block went out and some did not, the
  session is one that calls the flash indeterminate, and the message on the standard error ends
  with the advice.
\<close>

section \<open>A session as a run of a plan\<close>

text \<open>A session that sent a frame has run a plan, and ends as the run does.\<close>

lemma session_run:
  assumes "drive_session (taped W) a job (w, []) = Some (res, out, (w', tape))"
    and "session_frames a tape \<noteq> []"
  obtains info sts w1 tape1 ex s log where "plan info job (session_opts a) = Inr sts"
    "run (taped W) (session_new sts) (drain_args a) [] (w1, tape1) = Some (ex, s, log, (w', tape))"
    "session_frames a tape1 = []"
    "res = (case ex of Done _ \<Rightarrow> Success | Failed e \<Rightarrow> Stopped (DriverFailed e) | Panicked \<Rightarrow> Aborted)"
proof -
  let ?hs = "handshake (taped W) is_status_frame parse_status (session_opts a) (wait_time a) [] (w, [])"
  from assms(1) obtain ex log w1 tape1 where hs: "?hs = Some (ex, log, (w1, tape1))"
    by (cases ?hs) (auto simp: drive_session_def Let_def)
  have t: "session_frames a tape1 = []" using handshake_tape(1) [OF hs] by (simp add: session_frames_def)
  obtain out1 noise where l: "cli_logs (quiet a) log 0 = (out1, noise)" by (cases "cli_logs (quiet a) log 0")
  show thesis
  proof (cases "\<exists>info sts. ex = Done info \<and> plan info job (session_opts a) = Inr sts")
    case False
    with assms(1) hs l have "tape = tape1"
      by (cases ex; auto simp: drive_session_def Let_def split: sum.splits)+
    with t assms(2) show thesis by simp
  next
    case True
    then obtain info sts where d: "ex = Done info" "plan info job (session_opts a) = Inr sts" by blast
    let ?run = "run (taped W) (session_new sts) (drain_args a) [] (w1, tape1)"
    from assms(1) hs l d obtain ex2 s2 log2 where r: "?run = Some (ex2, s2, log2, (w', tape))"
      and res: "res = (case ex2 of Done _ \<Rightarrow> Success | Failed e \<Rightarrow> Stopped (DriverFailed e) | Panicked \<Rightarrow> Aborted)"
      by (cases ?run) (auto simp: drive_session_def Let_def split: outcome.splits)
    from that [OF d(2) r t res] show thesis .
  qed
qed

lemma session_frames_append: "session_frames a (xs @ ys) =
    session_frames a xs @ map snd (sent_at (rate_after (arg_handshake_baud a) xs) ys)"
  by (simp add: session_frames_def)

lemma session_frames_commands [simp]: "session_frames a (commands tape) = session_frames a tape"
  by (simp add: session_frames_def)

lemma frames_on_tape:
  assumes "tape_at cfg sts (commands tape1) (commands tape) s" and "session_frames a tape1 = []"
  obtains pre cur rest fs where "sts = pre @ cur @ rest" "session_frames a tape = map frame pre @ fs"
    "prefix fs (map frame cur)" "length cur \<le> 1"
    "if awaiting s then remaining s = cur @ rest \<and> cur \<noteq> []
     else remaining s = rest \<and> (\<forall>st \<in> set cur. expect st = Nothing)"
proof -
  from assms(1) obtain pre cur rest B where p: "sts = pre @ cur @ rest"
    "commands tape = commands tape1 @ concat (map (step_events cfg) pre) @ B"
    "prefix B (concat (map (step_events cfg) cur))" "length cur \<le> 1"
    "if awaiting s then remaining s = cur @ rest \<and> cur \<noteq> []
     else remaining s = rest \<and> (\<forall>st \<in> set cur. expect st = Nothing)"
    by (auto simp: tape_at_def)
  let ?r = "rate_after (rate_after (arg_handshake_baud a) tape1) (concat (map (step_events cfg) pre))"
  have "session_frames a (commands tape) = map frame pre @ map snd (sent_at ?r B)"
    unfolding p(2) session_frames_append using assms(2) by (simp add: sent_frames_steps)
  moreover have "prefix (map snd (sent_at ?r B)) (map frame cur)"
    using map_mono_prefix [OF sent_at_prefix [OF p(3)], of snd] by (simp add: sent_frames_steps)
  ultimately show thesis using that [OF p(1) _ _ p(4,5)] by simp
qed

section \<open>Half written\<close>

lemma written_covers:
  "f \<in> set fs \<Longrightarrow> write_request f = Some (lo, d) \<Longrightarrow> lo \<le> x \<Longrightarrow> x < lo + length d \<Longrightarrow> written fs x \<noteq> None"
  by (induction fs) (auto split: option.splits if_splits)

lemma written_step:
  assumes "plan info job opts = Inr sts" and "fs = map frame ts" and "set ts \<subseteq> set sts"
    and "written fs x \<noteq> None"
  obtains st lo d where "st \<in> set ts" "write_request (frame st) = Some (lo, d)" "lo \<le> x" "x < lo + length d"
    "phase st = Write"
proof -
  from written_request assms(2,4) obtain st lo d where st: "st \<in> set ts"
    and r: "write_request (frame st) = Some (lo, d)" "lo \<le> x" "x < lo + length d" by fastforce
  from st assms(3) have "st \<in> set sts" by blast
  from assms(1) this have "phase st = Write"
    by (cases rule: plan_step_cases) (use r(1) write_request_cmd in auto)
  with that st r show thesis by blast
qed

lemma half_written_indeterminate:
  assumes pl: "plan info job (session_opts a) = Inr sts"
    and inv: "session_inv s" and steps: "steps s = sts"
    and ta: "tape_at cfg sts (commands tape1) (commands tape) s" and none: "session_frames a tape1 = []"
    and x: "written (session_frames a tape) x \<noteq> None"
    and y: "written (session_frames a tape) y = None" "written (map frame sts) y \<noteq> None"
  shows "flash_is_indeterminate s"
proof -
  from ta none obtain pre cur rest fs where p: "sts = pre @ cur @ rest"
    "session_frames a tape = map frame pre @ fs" "prefix fs (map frame cur)" "length cur \<le> 1"
    "if awaiting s then remaining s = cur @ rest \<and> cur \<noteq> []
     else remaining s = rest \<and> (\<forall>st \<in> set cur. expect st = Nothing)" by (rule frames_on_tape)
  have drop: "remaining s = drop (at s) (pre @ cur @ rest)" using steps p(1) by (simp add: remaining_def)
  have le: "at s \<le> length (pre @ cur @ rest)" using session_inv_D(1) [OF inv] steps p(1) by simp
  have len: "at s + length (remaining s) = length (pre @ cur @ rest)" using drop le by simp
  have passed: "take (at s + of_bool (awaiting s)) sts = pre @ cur"
  proof (cases "awaiting s")
    case True
    with p(4,5) have "length cur = 1" by (cases cur) auto
    with True p(5) len have "at s + of_bool (awaiting s) = length (pre @ cur)" by simp
    then show ?thesis by (simp add: p(1))
  next
    case False
    with p(5) len have "at s + of_bool (awaiting s) = length (pre @ cur)" by simp
    then show ?thesis by (simp add: p(1))
  qed
  from prefix_map_rightE [OF p(3)] obtain ts where ts: "fs = map frame ts" "prefix ts cur" by blast
  have tsub: "set (pre @ ts) \<subseteq> set (pre @ cur)" using set_mono_prefix [OF ts(2)] by auto
  obtain st where st: "st \<in> set (pre @ cur)" "phase st = Write"
    using written_step [OF pl _ _ x, of "pre @ ts"] tsub p(1,2) ts(1) by auto
  obtain t lo d where t: "t \<in> set sts" "write_request (frame t) = Some (lo, d)" "lo \<le> y" "y < lo + length d"
      "phase t = Write"
    using written_step [OF pl refl subset_refl y(2)] by metis
  have "t \<notin> set pre"
  proof
    assume "t \<in> set pre"
    then have "frame t \<in> set (session_frames a tape)" by (simp add: p(2))
    from written_covers [OF this t(2-4)] y(1) show False by simp
  qed
  moreover have "expect t \<noteq> Nothing"
    using pl t(1) by (cases rule: plan_step_cases) (use t(5) in auto)
  ultimately have "t \<in> set (remaining s)" using t(1) p(1,5) by (auto split: if_splits)
  with st t(5) show ?thesis using inv passed steps by (auto simp: flash_indeterminate_remaining)
qed

text \<open>The text of the error that follows.\<close>

lemma half_written_error:
  assumes "drive_session (taped W) a (FlashJob img wo) (w, []) = Some (Stopped e, out, (w', tape))"
    and "written (session_frames a tape) x \<noteq> None"
    and "y < erase_blocks_for (length img) * ERASE_BLOCK" and "written (session_frames a tape) y = None"
  shows "\<exists>e0. e = DriverFailed (IndeterminateFlash e0)"
proof -
  from assms(2) have "session_frames a tape \<noteq> []" by auto
  from assms(1) this obtain info sts w1 tape1 ex s log where
    pl: "plan info (FlashJob img wo) (session_opts a) = Inr sts"
    and r: "run (taped W) (session_new sts) (drain_args a) [] (w1, tape1) = Some (ex, s, log, (w', tape))"
    and none: "session_frames a tape1 = []"
    and res: "Stopped e = (case ex of Done _ \<Rightarrow> Success | Failed e \<Rightarrow> Stopped (DriverFailed e) | Panicked \<Rightarrow> Aborted)"
    by (rule session_run)
  from run_taped_at [OF r] have inv: "session_inv s" "steps s = sts"
    and ta: "tape_at (drain_args a) sts (commands tape1) (commands tape) s" by simp_all
  have "written (map frame sts) y \<noteq> None" using flash_plan_written [OF pl, of y] assms(3) by simp
  from half_written_indeterminate [OF pl inv ta none assms(2,4) this] have f: "flash_is_indeterminate s" .
  from res obtain e1 where e: "ex = Failed e1" "e = DriverFailed e1" by (cases ex) auto
  with run_taped [OF r] have "\<exists>e0. e1 = wrap s e0" by (auto simp: run_result_def)
  with f e(2) show ?thesis by (auto simp: wrap_def)
qed

lemma stderr_ErrorLine:
  "stderr_text shown (out @ [ErrorLine e])
     = stderr_text shown out @ ''stcbsl: '' @ cli_error_text shown e @ NEWLINE"
  by (simp add: stderr_text_def println_def)

lemma advice_shown:
  "suffix (INDETERMINATE_ADVICE @ NEWLINE)
     (stderr_text shown (out @ [ErrorLine (DriverFailed (IndeterminateFlash e))]))"
  by (simp add: stderr_ErrorLine suffix_def)

section \<open>Quiet runs\<close>

lemma quiet_logs [simp]: "fst (cli_logs True log n) = []"
proof (induction log arbitrary: n)
  case (Cons e log)
  have "fst (cli_log True e n) = []" by (cases e) (simp_all add: cli_log_def)
  with Cons show ?case by (simp split: prod.splits) (metis append_self_conv2 fst_conv)
qed simp

lemma quiet_logsD: "cli_logs True log n = (out, m) \<Longrightarrow> out = []"
  using quiet_logs [of log n] by simp

lemma quiet_session:
  assumes "drive_session W a job w = Some (Success, out, w')" and "quiet a"
  shows "\<exists>info. out = [TargetLines info (arg_handshake_baud a), DoneLine job]"
proof -
  let ?hs = "handshake W is_status_frame parse_status (session_opts a) (wait_time a) [] w"
  from assms(1) obtain ex log w1 where hs: "?hs = Some (ex, log, w1)"
    by (cases ?hs) (auto simp: drive_session_def Let_def)
  obtain noise where l: "cli_logs (quiet a) log 0 = ([], noise)"
    using assms(2) quiet_logsD [of log 0] by (cases "cli_logs True log 0") auto
  from assms(1) hs l obtain info sts where d: "ex = Done info" "plan info job (session_opts a) = Inr sts"
    by (cases ex) (auto simp: drive_session_def Let_def split: sum.splits)
  let ?run = "run W (session_new sts) (drain_args a) [] w1"
  from assms hs l d show ?thesis
    by (cases ?run) (auto simp: drive_session_def Let_def session_opts_def split: outcome.splits)
qed

lemma quiet_load: "load_image X path True w = (r, out, w') \<Longrightarrow> out = []"
  by (auto simp: load_image_def split: prod.splits sum.splits)

lemma quiet_cmd_session:
  assumes "cmd_session X a job w = Some (Success, out, w')" and "quiet a"
  shows "\<exists>info. out = [TargetLines info (arg_handshake_baud a), DoneLine job]"
  using assms by (auto simp: cmd_session_def split: option.splits sum.splits prod.splits dest: quiet_session)

lemma quiet_cmd_write:
  assumes "cmd_write X a w = Some (Success, out, w')" and "quiet a"
  shows "\<exists>info path rest tx w1 img. positional a = path # rest \<and> read_to_string X path w = (Inr tx, w1)
    \<and> parse tx = Inr img
    \<and> out = [TargetLines info (arg_handshake_baud a), DoneLine (FlashJob (bytes img) (write_options a))]"
proof -
  from assms obtain path rest img w1 out1 out2 where pos: "positional a = path # rest"
    and l: "load_image X path True w = (Inr img, out1, w1)"
    and s: "cmd_session X a (FlashJob img (write_options a)) w1 = Some (Success, out2, w')" and "out = out1 @ out2"
    by (auto simp: cmd_write_def split: list.splits prod.splits sum.splits option.splits)
  from l obtain tx i where "read_to_string X path w = (Inr tx, w1)" "parse tx = Inr i" "img = bytes i"
    by (rule load_image_result)
  with quiet_cmd_session [OF s assms(2)] quiet_load [OF l] pos \<open>out = out1 @ out2\<close> show ?thesis by auto
qed

lemma quiet_cmd_explain:
  assumes "cmd_explain X a w = (Success, out, w')" and "quiet a"
  shows "\<exists>path rest tx img. positional a = path # rest \<and> read_to_string X path w = (Inr tx, w')
    \<and> parse tx = Inr img \<and> out = explain_lines (bytes img)"
proof -
  from assms obtain path rest img out1 where pos: "positional a = path # rest"
    and l: "load_image X path True w = (Inr img, out1, w')" and "out = out1 @ explain_lines img"
    by (auto simp: cmd_explain_def split: list.splits prod.splits sum.splits)
  from l obtain tx i where "read_to_string X path w = (Inr tx, w')" "parse tx = Inr i" "img = bytes i"
    by (rule load_image_result)
  with quiet_load [OF l] pos \<open>out = out1 @ _\<close> show ?thesis by auto
qed

section \<open>The usage text\<close>

text \<open>The words of the usage text that look like options.\<close>

fun words :: "string \<Rightarrow> string \<Rightarrow> string list" where
  "words w [] = (if w = [] then [] else [w])"
| "words w (c # cs) =
     (if c \<in> set '' ,()[]<>|`'' then (if w = [] then [] else [w]) @ words [] cs else words (w @ [c]) cs)"

definition documented_options :: "string list" where
  "documented_options = filter (prefix ''-'') (concat (map (words []) USAGE_LINES))"

lemma EM_DASH_eval: "EM_DASH = [CHR 0xE2, CHR 0x80, CHR 0x94]"
  by (simp add: EM_DASH_def utf8_def char_eval)

lemma documented_options_eval:
  "documented_options =
     [''--blocks'', ''--blocks'', ''-p'', ''--port'', ''--baud'', ''--handshake-baud'', ''--parity'', ''--wait'',
      ''--drain-mode'', ''--drain-margin'', ''--blocks'', ''--keep-options'', ''--skip-options'',
      ''-q'', ''--quiet'', ''-h'', ''--help'']"
  unfolding documented_options_def USAGE_LINES_def EM_DASH_eval by code_simp

lemma documented_set:
  "set [bl, bl, p, po, b, hb, pa, w, dm, dr, bl, ko, so, q, qu, h, he] =
     {h, he} \<union> {q, qu, ko, so} \<union> {p, po, b, hb, dm, dr, pa, w, bl}"
  by auto

text \<open>The defaults of the family, of the session options and of the command line are the same.\<close>

lemma defaults_agree:
  "handshake_baud session_options_default = stc89_default_handshake_baud"
  "transfer_baud session_options_default = stc89_default_transfer_baud"
  "session_opts args_default = session_options_default" "drain_args args_default = drain_config_default"
  by (simp_all add: session_options_default_def stc89_default_handshake_baud_def drain_args_def
      stc89_default_transfer_baud_def session_opts_def args_default_def drain_config_default_def)

lemma flag_arm_known:
  "flag_arm arg \<noteq> None \<longleftrightarrow> arg \<in> {''-q'', ''--quiet'', ''--keep-options'', ''--skip-options''}"
  by (simp add: flag_arm_def)

lemma value_arm_known:
  "value_arm arg \<noteq> None \<longleftrightarrow>
     arg \<in> {''-p'', ''--port'', ''--baud'', ''--handshake-baud'', ''--drain-mode'', ''--drain-margin'',
       ''--parity'', ''--wait'', ''--blocks''}"
  by (simp add: value_arm_def)

lemma value_arm_error: "value_arm arg = Some (what, f) \<Longrightarrow> f v a \<noteq> Inl (UnknownOption x)"
  by (auto simp: value_arm_def map_ok_def parse_unsigned_def split: if_splits sum.splits option.splits)

lemma next_value_known: "value_arm arg = Some (what, f) \<Longrightarrow>
    next_value what (\<lambda>v. f v a) rest \<noteq> Inl (Fail (UnknownOption x))"
  using value_arm_error by (auto simp: next_value_def split: list.splits sum.splits)

lemma unknown_option_iff:
  "parse_arg arg rest a = Inl (Fail (UnknownOption arg)) \<longleftrightarrow>
     prefix ''-'' arg \<and> arg \<noteq> ''-h'' \<and> arg \<noteq> ''--help'' \<and> flag_arm arg = None \<and> value_arm arg = None"
  using next_value_known [of arg] by (auto simp: parse_arg_def split: option.splits prod.splits)

text \<open>
  C26: The usage text and the parser agree on the options. A word that begins with a dash is
  listed in what \<open>--help\<close> prints exactly when the parser does not refuse it as an
  unknown option, whatever follows it and whatever was parsed before.
\<close>

theorem usage_lists_options:
  "arg \<in> set documented_options \<longleftrightarrow>
     prefix ''-'' arg \<and> (\<forall>rest a. parse_arg arg rest a \<noteq> Inl (Fail (UnknownOption arg)))"
proof -
  have "set documented_options = {''-h'', ''--help''} \<union> {''-q'', ''--quiet'', ''--keep-options'', ''--skip-options''}
      \<union> {''-p'', ''--port'', ''--baud'', ''--handshake-baud'', ''--drain-mode'', ''--drain-margin'',
        ''--parity'', ''--wait'', ''--blocks''}"
    unfolding documented_options_eval by (rule documented_set)
  then have "arg \<in> set documented_options \<longleftrightarrow>
      arg \<in> {''-h'', ''--help''} \<or> flag_arm arg \<noteq> None \<or> value_arm arg \<noteq> None"
    by (simp only: flag_arm_known value_arm_known Un_iff disj_assoc)
  moreover have "\<forall>x \<in> set documented_options. prefix ''-'' x" by (simp add: documented_options_def)
  ultimately show ?thesis by (simp add: unknown_option_iff) blast
qed

text \<open>
  C37: The clock is reported to the nearest kilohertz. For every status packet that parses, the
  number of megahertz in the report, computed in floating point and rounded a second
  time to three decimals, is the measured frequency to within half a kilohertz.
\<close>

theorem reported_clock_is_nearest:
  assumes "parse_status f b = Inr info"
  shows "\<exists>khz. mhz_text (measured_hz info) = fmt_thousandths khz
    \<and> \<bar>1000 * int khz - int (unat (measured_hz info))\<bar> \<le> 500"
proof -
  from parse_status_fields(3,4) [OF assms] have h: "0 < unat (measured_hz info)" "unat (measured_hz info) < 2 ^ 52"
    by simp_all
  then have "u64_as_f64 (unat (measured_hz info)) = unat (measured_hz info)" by (intro u64_as_f64_exact) simp
  then show ?thesis using f64_thousandths_nearest [OF h] by (auto simp: mhz_text_def fmt_f64_3_def)
qed

theorem reported_clock_is_nearest_witness:
  "mhz_text (measured_hz sample_info) = ''10.973''"
proof -
  obtain khz where k: "mhz_text (measured_hz sample_info) = fmt_thousandths khz"
    "\<bar>1000 * int khz - int (unat (measured_hz sample_info))\<bar> \<le> 500"
    using reported_clock_is_nearest [OF sample_parses] by blast
  then have "khz = 10973" by (simp add: sample_fields)
  with k(1) show ?thesis
    by (simp add: fmt_thousandths_def fmt_dec_def radix_digits.simps digit_char_def char_eval)
qed

end
