(* ===== verification/Half_Written.thy ===== *)
theory Half_Written imports Stc89_Uart Cli_Report begin

text \<open>
  Sessions that stop in the middle of the writes: what the user reads then, and a chip that
  brings it about by acknowledging one block without its sum. A chip that falls silent, and
  the error that tells at which step.
\<close>

section \<open>A chip that refuses one frame\<close>

definition faulty_reply :: "frame \<Rightarrow> frame \<Rightarrow> u8 list \<Rightarrow> u8 list" where
  "faulty_reply status bad bs =
     (if bs = encode bad then encode (frame_mcu REPLY_ACK []) else stc89_reply status bs)"

lemma encode_inject [simp]: "encode f = encode g \<longleftrightarrow> f = (g :: frame)"
  by (metis decode_encode sum.inject(2))

lemma faulty_serves:
  "served (stc89_reply status) st \<Longrightarrow> frame st \<noteq> bad \<Longrightarrow> served (faulty_reply status bad) st"
  by (auto simp: served_def faulty_reply_def split: if_splits)

text \<open>
  A session with a chip that serves the first steps of the plan and answers the next one
  wrongly: it stops with an error, with exactly the frames up to that step on the tape.
\<close>

lemma refused_session:
  assumes chip: "obliging_wire W reply queue clk" and "queue w = []"
    and sync: "reply [SYNC_BYTE] = encode status" and "length (payload status) \<le> 248"
    and ps: "parse_status status (arg_handshake_baud a) = Inr info" and "0 < wait_s a"
    and pl: "plan info job (session_opts a) = Inr (pre @ st # post)"
    and "\<forall>t \<in> set pre. served reply t"
    and "expect st \<noteq> Nothing" "0 < timeout_ms st" "reply (encode (frame st)) = encode f"
      "length (encode f) \<le> 512" "\<not> reply_fits st f"
  obtains e out w' tape where "drive_session (taped W) a job (w, []) = Some (Stopped e, out, (w', tape))"
    and "prefix (map frame pre) (session_frames a tape)"
    and "prefix (session_frames a tape) (map frame (pre @ [st]))"
proof -
  let ?hs = "\<lambda>W. handshake W is_status_frame parse_status (session_opts a) (wait_time a) []"
  let ?sts = "pre @ st # post"
  obtain log1 w1 l1 where hs: "?hs W w = Some (Done info, log1, w1)"
    and l1: "queues queue w1 l1" "all_sent l1" "incoming l1 = []"
    by (rule obliging_handshake [OF chip assms(2) sync ps assms(4,6)])
  from tape_handshake [OF hs] obtain tape1 where
    hst: "?hs (taped W) (w, []) = Some (Done info, log1, (w1, tape1))" .
  have none: "session_frames a tape1 = []"
    using handshake_tape(1) [OF hst] by (simp add: session_frames_def)
  have rem: "remaining (session_new ?sts) = ?sts" by (simp add: remaining_def session_new_def)
  have aw: "\<forall>t \<in> set pre. expect t \<noteq> Nothing" using plan_awaits [OF pl] by (simp add: butlast_append)
  then have srv: "serves_all (answering reply) (\<lambda>_ _. True) (mcu l1) (line_rate l1) pre ()"
    using served_serves_all [OF assms(8), where r = "line_rate l1"] by (auto dest: in_set_butlastD)
  have ans: "answering reply () r (encode (frame st)) = ((), (), encode f)" for r
    using assms(11) by (simp add: answering_def)
  obtain e s2 log2 w2 where r: "run_loop W (drain_args a) receiver_new (session_new ?sts) [] w1
      = Some (Failed (wrap s2 (SessionFailed e)), s2, log2, w2)" and s2: "awaiting s2" "remaining s2 = st # post"
    using uart_wire.run_misheard [OF obliging_wire.as_uart [OF chip] session_inv_new session_new_idle rem l1
        disjI2 [OF prompt_queues] srv aw assms(9,10) ans TrueI chatter_none [OF assms(12)] assms(13)] by blast
  from tape_run_loop [OF r, rule_format, of tape1] obtain tape where
    rt: "run (taped W) (session_new ?sts) (drain_args a) [] (w1, tape1)
      = Some (Failed (wrap s2 (SessionFailed e)), s2, log2, (w2, tape))"
    unfolding run_def by auto
  have "tape_at (drain_args a) ?sts (commands tape1) (commands tape) s2"
    using run_taped_at [OF rt] by blast
  from this none obtain pre' cur rest fs where t: "?sts = pre' @ cur @ rest"
    "session_frames a tape = map frame pre' @ fs" "prefix fs (map frame cur)" "length cur \<le> 1"
    "remaining s2 = cur @ rest" "cur \<noteq> []"
    using s2(1) by (auto elim: frames_on_tape)
  from t(4,6) have "length cur = 1" by (cases cur) auto
  with t(5) s2(2) have cur: "cur = [st]" "rest = post" by (cases cur; simp)+
  with t(1) have "pre' = pre" by simp
  with t(2) have "prefix (map frame pre) (session_frames a tape)" by simp
  moreover have "prefix (session_frames a tape) (map frame (pre @ [st]))"
    unfolding t(2) \<open>pre' = pre\<close> map_append same_prefix_prefix using t(3) unfolding cur(1) .
  moreover obtain out1 noise where l: "cli_logs (quiet a) log1 0 = (out1, noise)"
    by (cases "cli_logs (quiet a) log1 0")
  have "\<exists>out. drive_session (taped W) a job (w, []) = Some (Stopped (DriverFailed (wrap s2 (SessionFailed e))), out, (w2, tape))"
    using hst l pl rt by (simp add: drive_session_def Let_def del: cli_logs.simps)
  ultimately show thesis using that by blast
qed

section \<open>What the user reads\<close>

text \<open>
  C3: A half-written chip is never left in silence. When a flashing session ends with an error
  after some byte was written and before all of the erased region was, on any wire, then the
  message on the standard error ends with the warning that the flash is indeterminate and with what
  to do about it, whatever else the error was.
\<close>

theorem half_written_is_reported:
  assumes "drive_session (taped W) a (FlashJob img wo) (w, []) = Some (Stopped e, out, (w', tape))"
    and "written (session_frames a tape) x \<noteq> None"
    and "y < erase_blocks_for (length img) * ERASE_BLOCK" and "written (session_frames a tape) y = None"
  shows "suffix (INDETERMINATE_ADVICE @ NEWLINE) (stderr_text shown (out @ [ErrorLine e]))"
  using half_written_error [OF assms] advice_shown by auto


text \<open>The sample image needs four blocks; the chip refuses the second.\<close>

lemma sample_blocks:
  obtains pre c0 c1 post where
    "plan sample_info (FlashJob [0x80] True) (session_opts args_default) =
       Inr ((pre @ [write_step (session_opts args_default) 4 0 c0]) @ write_step (session_opts args_default) 4 1 c1 # post)"
    and "\<forall>st \<in> set pre. cmd (frame st) \<noteq> CMD_WRITE" "length c0 = 128" "length c1 = 128"
proof -
  let ?o = "session_opts args_default"
  have o': "?o = session_options_default"
    by (simp add: session_opts_def session_options_default_def args_default_def)
  obtain sts where p: "plan sample_info (FlashJob [0x80] True) ?o = Inr sts"
    using sample_plan [of "[0x80]" True] unfolding o' by auto
  have n: "erase_blocks_for (length [0x80 :: u8]) = 2" by (simp add: erase_blocks_for_eq)
  from flash_plan [OF p] obtain reload where
    sts: "sts = prologue sample_info ?o reload @ erase_step ?o 2 # write_steps ?o [0x80] 2 @
      [options_step sample_info ?o] @ [run_step ?o]"
    unfolding n by (metis (full_types))
  let ?cs = "slice_chunks WRITE_BLOCK (resize (2 * ERASE_BLOCK) 0xFF [0x80 :: u8])"
  from write_chunks(1,2) [of 2 "[0x80]"] have cs: "length ?cs = 4" "\<forall>c \<in> set ?cs. length c = 128" by simp_all
  from cs(1) obtain c0 c1 cs' where c: "?cs = c0 # c1 # cs'" by (auto simp: length_Suc_conv eval_nat_numeral)
  have "2 * ERASE_BLOCK div WRITE_BLOCK = 4" by (simp add: ERASE_BLOCK_def WRITE_BLOCK_def)
  with c have "write_steps ?o [0x80] 2 = write_step ?o 4 0 c0 # write_step ?o 4 1 c1 #
      map (\<lambda>(i, c). write_step ?o 4 i c) (enumerate 2 cs')"
    by (simp add: write_steps_def Let_def eval_nat_numeral)
  with p sts show thesis
    using cs(2) c prologue_cmd [of _ sample_info ?o reload]
    by (intro that [of "prologue sample_info ?o reload @ [erase_step ?o 2]" c0 c1])
      (auto simp: erase_frame_def stc89_commands)
qed

lemma sample_refused:
  obtains bad e out w' tape where
    "drive_session (taped (wire_impl OtherUnix (chip_port (faulty_reply sample_packet bad)))) args_default
       (FlashJob [0x80] True) (chip_start, []) = Some (Stopped e, out, (w', tape))"
    "written (session_frames args_default tape) 0 \<noteq> None"
    "written (session_frames args_default tape) 300 = None"
proof -
  let ?o = "session_opts args_default"
  obtain pre c0 c1 post where
    pl: "plan sample_info (FlashJob [0x80] True) ?o = Inr ((pre @ [write_step ?o 4 0 c0]) @ write_step ?o 4 1 c1 # post)"
    and pre: "\<forall>st \<in> set pre. cmd (frame st) \<noteq> CMD_WRITE" and len: "length c0 = 128" "length c1 = 128"
    by (rule sample_blocks)
  let ?w0 = "write_step ?o 4 0 c0" and ?w1 = "write_step ?o 4 1 c1"
  let ?reply = "faulty_reply sample_packet (frame ?w1)"
  have req: "write_request (frame ?w0) = Some (0, c0)" "write_request (frame ?w1) = Some (128, c1)"
    using len write_request_write_frame [of c0 0] write_request_write_frame [of c1 128]
    by (simp_all add: WRITE_BLOCK_def)
  then have ne: "frame ?w0 \<noteq> frame ?w1" by auto
  have to: "0 < reply_timeout_ms ?o" "0 < erase_timeout_ms ?o"
    by (simp_all add: session_opts_def session_options_default_def)
  have ps: "parse_status sample_packet (arg_handshake_baud args_default) = Inr sample_info"
    using sample_parses by (simp add: args_default_def)
  have "frame t \<noteq> frame ?w1" if "t \<in> set (pre @ [?w0])" for t
    using that pre ne by (auto simp: write_frame_def)
  moreover have "served (stc89_reply sample_packet) t" if "t \<in> set (pre @ [?w0])" for t
    using plan_served [OF ps pl to] that by auto
  ultimately have srv: "\<forall>t \<in> set (pre @ [?w0]). served ?reply t" using faulty_serves by blast
  have sync: "?reply [SYNC_BYTE] = encode sample_packet"
    by (simp add: faulty_reply_def stc89_reply_def encode_eq)
  have ans: "?reply (encode (frame ?w1)) = encode (frame_mcu REPLY_ACK [])" by (simp add: faulty_reply_def)
  have st: "expect ?w1 \<noteq> Nothing" "0 < timeout_ms ?w1" "length (encode (frame_mcu REPLY_ACK [])) \<le> 512"
    "\<not> reply_fits ?w1 (frame_mcu REPLY_ACK [])"
    using to by (simp_all add: write_step_def Let_def length_encode_payload frame_mcu_def reply_fits_def
        check_reply_def del: length_encode)
  have q: "(snd \<circ> port) chip_start = []" "0 < wait_s args_default"
    by (simp_all add: chip_start_def args_default_def)
  obtain e out w' tape where d: "drive_session (taped (wire_impl OtherUnix (chip_port ?reply))) args_default
      (FlashJob [0x80] True) (chip_start, []) = Some (Stopped e, out, (w', tape))"
    and t: "prefix (map frame (pre @ [?w0])) (session_frames args_default tape)"
      "prefix (session_frames args_default tape) (map frame ((pre @ [?w0]) @ [?w1]))"
    by (rule refused_session [OF chip.obliging_wire_axioms q(1) sync sample_short ps q(2) pl srv st(1,2) ans st(3,4)])
  have "frame ?w0 \<in> set (session_frames args_default tape)" using set_mono_prefix [OF t(1)] by auto
  from written_covers [OF this req(1), of 0] len have w0: "written (session_frames args_default tape) 0 \<noteq> None"
    by simp
  have "written (session_frames args_default tape) 300 = None"
  proof (rule ccontr)
    assume "written (session_frames args_default tape) 300 \<noteq> None"
    then obtain f lo d where f: "f \<in> set (session_frames args_default tape)" "write_request f = Some (lo, d)"
      "lo \<le> 300" "300 < lo + length d" using written_request by blast
    from f(2) have "cmd f = CMD_WRITE" using write_request_cmd by blast
    then have "f = frame ?w0 \<or> f = frame ?w1" using set_mono_prefix [OF t(2)] f(1) pre by auto
    with f(2-4) req len show False by auto
  qed
  from that [OF d w0 this] show thesis .
qed

theorem half_written_is_reported_witness:
  "\<exists>bad e out w' tape. drive_session (taped (wire_impl OtherUnix (chip_port (faulty_reply sample_packet bad)))) args_default
       (FlashJob [0x80] True) (chip_start, []) = Some (Stopped e, out, (w', tape))
     \<and> suffix (INDETERMINATE_ADVICE @ NEWLINE) (stderr_text (\<lambda>_. True) (out @ [ErrorLine e]))"
proof -
  obtain bad e out w' tape where d:
    "drive_session (taped (wire_impl OtherUnix (chip_port (faulty_reply sample_packet bad)))) args_default
       (FlashJob [0x80] True) (chip_start, []) = Some (Stopped e, out, (w', tape))"
    "written (session_frames args_default tape) 0 \<noteq> None"
    "written (session_frames args_default tape) 300 = None" by (rule sample_refused)
  have "(300 :: nat) < erase_blocks_for (length [0x80 :: u8]) * ERASE_BLOCK"
    by (simp add: erase_blocks_for_eq ERASE_BLOCK_def)
  from half_written_is_reported [OF d(1,2) this d(3)] d(1) show ?thesis by blast
qed

section \<open>A chip that falls silent\<close>


text \<open>A chip that answers the baud probe and then nothing.\<close>

definition probe_only :: "(unit, unit) hearing" where
  "probe_only = (\<lambda>_ _ bs. ((), (),
     if bs = encode (baud_probe_frame 0xFD) then encode ((baud_probe_frame 0xFD)\<lparr>dir := McuToHost\<rparr>) else []))"


end
