(* ===== verification/Cli_Args.thy ===== *)
theory Cli_Args imports Cli begin

text \<open>
  What the argument parser reads. \<open>render_args\<close> writes the arguments that ask for given
  settings, with every option spelled out, and \<open>parse_args\<close> reads them back.
\<close>

section \<open>One argument\<close>

lemma parse_loop_Nil [simp]: "parse_loop [] a = Inr a"
  by (simp add: parse_loop.simps)

lemma parse_loop_step:
  "parse_arg arg rest a = Inr (rest', a') \<Longrightarrow> parse_loop (arg # rest) a = parse_loop rest' a'"
  by (simp add: parse_loop.simps [of "arg # rest"])

definition plain_word :: "string \<Rightarrow> bool" where
  "plain_word s \<longleftrightarrow> \<not> prefix ''-'' s"

lemma plain_word_arms:
  assumes "plain_word s"
  shows "flag_arm s = None" and "value_arm s = None" and "s \<notin> {''-h'', ''--help''}"
proof -
  have "s \<noteq> CHR ''-'' # xs" for xs using assms by (auto simp: plain_word_def)
  then show "flag_arm s = None" "value_arm s = None" "s \<notin> {''-h'', ''--help''}"
    by (simp_all add: flag_arm_def value_arm_def)
qed

lemma parse_loop_command:
  "plain_word s \<Longrightarrow> command a = None \<Longrightarrow> parse_loop (s # rest) a = parse_loop rest (a\<lparr>command := Some s\<rparr>)"
  using plain_word_arms [of s] by (simp add: parse_loop.simps [of "s # rest"] parse_arg_def plain_word_def)

lemma parse_loop_positional:
  "\<forall>s \<in> set ws. plain_word s \<Longrightarrow> command a \<noteq> None \<Longrightarrow>
     parse_loop ws a = Inr (a\<lparr>positional := positional a @ ws\<rparr>)"
proof (induction ws arbitrary: a)
  case (Cons s ws)
  then show ?case using plain_word_arms [of s]
    by (auto simp: parse_loop.simps [of "s # ws"] parse_arg_def plain_word_def)
qed simp

lemma parse_loop_options:
  "parse_loop (''--port'' # v # rest) a = parse_loop rest (a\<lparr>arg_port := Some v\<rparr>)"
  "parse_loop (''--baud'' # fmt_dec (unat b) # rest) a = parse_loop rest (a\<lparr>arg_transfer_baud := b\<rparr>)"
  "parse_loop (''--handshake-baud'' # fmt_dec (unat b) # rest) a = parse_loop rest (a\<lparr>arg_handshake_baud := b\<rparr>)"
  "parse_loop (''--drain-mode'' # ''tcdrain'' # rest) a = parse_loop rest (a\<lparr>arg_drain_mode := TcDrain\<rparr>)"
  "parse_loop (''--drain-mode'' # ''wire'' # rest) a = parse_loop rest (a\<lparr>arg_drain_mode := ComputeWireTime\<rparr>)"
  "- (2 ^ 63) \<le> m \<Longrightarrow> m < 2 ^ 63 \<Longrightarrow>
     parse_loop (''--drain-margin'' # fmt_int m # rest) a = parse_loop rest (a\<lparr>drain_margin_ms := m\<rparr>)"
  "parse_loop (''--parity'' # ''none'' # rest) a = parse_loop rest (a\<lparr>parity_even := False\<rparr>)"
  "parse_loop (''--parity'' # ''even'' # rest) a = parse_loop rest (a\<lparr>parity_even := True\<rparr>)"
  "parse_loop (''--wait'' # fmt_dec (unat s) # rest) a = parse_loop rest (a\<lparr>wait_s := s\<rparr>)"
  "parse_loop (''--blocks'' # fmt_dec (unat n) # rest) a = parse_loop rest (a\<lparr>arg_blocks := Some n\<rparr>)"
  "parse_loop (''--keep-options'' # rest) a = parse_loop rest (a\<lparr>write_options := True\<rparr>)"
  "parse_loop (''--skip-options'' # rest) a = parse_loop rest (a\<lparr>write_options := False\<rparr>)"
  "parse_loop (''--quiet'' # rest) a = parse_loop rest (a\<lparr>quiet := True\<rparr>)"
proof -
  have u32: "unat b \<le> 2 ^ 32 - 1" for b :: u32 using unat_u32_less [of b] by (simp flip: less_Suc_eq_le)
  have u64: "unat b \<le> 2 ^ 64 - 1" for b :: u64 using unat_u64_less [of b] by (simp flip: less_Suc_eq_le)
  have u8: "unat b \<le> 2 ^ 8 - 1" for b :: u8 using unat_u8_less [of b] by (simp flip: less_Suc_eq_le)
  note arms = parse_arg_def next_value_def value_arm_def flag_arm_def map_ok_def parse_unsigned_def
  show "parse_loop (''--port'' # v # rest) a = parse_loop rest (a\<lparr>arg_port := Some v\<rparr>)"
    by (rule parse_loop_step) (simp_all add: arms)
  show "parse_loop (''--baud'' # fmt_dec (unat b) # rest) a = parse_loop rest (a\<lparr>arg_transfer_baud := b\<rparr>)"
    by (rule parse_loop_step) (use u32 [of b] in \<open>simp_all add: arms\<close>)
  show "parse_loop (''--handshake-baud'' # fmt_dec (unat b) # rest) a = parse_loop rest (a\<lparr>arg_handshake_baud := b\<rparr>)"
    by (rule parse_loop_step) (use u32 [of b] in \<open>simp_all add: arms\<close>)
  show "parse_loop (''--drain-mode'' # ''tcdrain'' # rest) a = parse_loop rest (a\<lparr>arg_drain_mode := TcDrain\<rparr>)"
    by (rule parse_loop_step) (simp_all add: arms)
  show "parse_loop (''--drain-mode'' # ''wire'' # rest) a = parse_loop rest (a\<lparr>arg_drain_mode := ComputeWireTime\<rparr>)"
    by (rule parse_loop_step) (simp_all add: arms)
  show "parse_loop (''--drain-margin'' # fmt_int m # rest) a = parse_loop rest (a\<lparr>drain_margin_ms := m\<rparr>)"
    if "- (2 ^ 63) \<le> m" "m < 2 ^ 63"
    by (rule parse_loop_step) (use i64_from_fmt_int [OF that] in \<open>simp_all add: arms\<close>)
  show "parse_loop (''--parity'' # ''none'' # rest) a = parse_loop rest (a\<lparr>parity_even := False\<rparr>)"
    by (rule parse_loop_step) (simp_all add: arms)
  show "parse_loop (''--parity'' # ''even'' # rest) a = parse_loop rest (a\<lparr>parity_even := True\<rparr>)"
    by (rule parse_loop_step) (simp_all add: arms)
  show "parse_loop (''--wait'' # fmt_dec (unat s) # rest) a = parse_loop rest (a\<lparr>wait_s := s\<rparr>)"
    by (rule parse_loop_step) (use u64 [of s] in \<open>simp_all add: arms\<close>)
  show "parse_loop (''--blocks'' # fmt_dec (unat n) # rest) a = parse_loop rest (a\<lparr>arg_blocks := Some n\<rparr>)"
    by (rule parse_loop_step) (use u8 [of n] in \<open>simp_all add: arms\<close>)
  show "parse_loop (''--keep-options'' # rest) a = parse_loop rest (a\<lparr>write_options := True\<rparr>)"
    "parse_loop (''--skip-options'' # rest) a = parse_loop rest (a\<lparr>write_options := False\<rparr>)"
    "parse_loop (''--quiet'' # rest) a = parse_loop rest (a\<lparr>quiet := True\<rparr>)"
    by (rule parse_loop_step; simp add: arms)+
qed

section \<open>All arguments\<close>

definition render_args :: "args \<Rightarrow> string list" where
  "render_args a =
     (case arg_port a of None \<Rightarrow> [] | Some p \<Rightarrow> [''--port'', p])
     @ [''--baud'', fmt_dec (unat (arg_transfer_baud a)),
        ''--handshake-baud'', fmt_dec (unat (arg_handshake_baud a)),
        ''--drain-mode'', case arg_drain_mode a of TcDrain \<Rightarrow> ''tcdrain'' | ComputeWireTime \<Rightarrow> ''wire'',
        ''--drain-margin'', fmt_int (drain_margin_ms a),
        ''--parity'', if parity_even a then ''even'' else ''none'',
        ''--wait'', fmt_dec (unat (wait_s a))]
     @ (case arg_blocks a of None \<Rightarrow> [] | Some n \<Rightarrow> [''--blocks'', fmt_dec (unat n)])
     @ [if write_options a then ''--keep-options'' else ''--skip-options'']
     @ (if quiet a then [''--quiet''] else [])
     @ (case command a of None \<Rightarrow> [] | Some c \<Rightarrow> [c]) @ positional a"

text \<open>
  The settings an argument list can ask for: a margin of 64 bits, words that do not look
  like options, and no further word without a command.
\<close>

definition expressible :: "args \<Rightarrow> bool" where
  "expressible a \<longleftrightarrow>
     - (2 ^ 63) \<le> drain_margin_ms a \<and> drain_margin_ms a < 2 ^ 63
     \<and> (\<forall>s \<in> set (positional a). plain_word s)
     \<and> (case command a of None \<Rightarrow> positional a = [] | Some c \<Rightarrow> plain_word c)"

lemma parse_render:
  assumes "expressible a"
  shows "parse_args (render_args a) = Inr a"
proof -
  note m = assms [unfolded expressible_def]
  define b where "b = a\<lparr>command := None, positional := []\<rparr>"
  have "parse_loop (render_args a) args_default
      = parse_loop ((case command a of None \<Rightarrow> [] | Some c \<Rightarrow> [c]) @ positional a) b"
    using m unfolding render_args_def b_def
    by (cases a; cases "arg_port a"; cases "arg_blocks a"; cases "arg_drain_mode a")
      (auto simp: parse_loop_options args_default_def)
  also have "\<dots> = Inr a"
  proof (cases "command a")
    case None
    with m show ?thesis by (simp add: b_def)
  next
    case (Some c)
    with m show ?thesis by (simp add: b_def parse_loop_command parse_loop_positional)
  qed
  finally show ?thesis by (simp add: parse_args_def)
qed

end
