(* ===== verification/Ihex_Roundtrip.thy ===== *)
theory Ihex_Roundtrip imports Ihex begin

text \<open>
  Reading back what a linker emits. \<open>hex_text\<close> prints a list of data records and
  the end-of-file record in the Intel HEX format; \<open>parse\<close> turns it, whatever follows
  the end-of-file record, into the memory the records describe.
\<close>

section \<open>The text of a list of records\<close>

definition hex_bytes :: "u8 list \<Rightarrow> string" where
  "hex_bytes bs = concat (map (\<lambda>b. fmt_hex 2 (unat b)) bs)"

definition record_bytes :: "u8 \<Rightarrow> u16 \<Rightarrow> u8 list \<Rightarrow> u8 list" where
  "record_bytes t addr data =
     (let body = of_nat (length data) # to_be16 addr @ t # data in body @ [- sum_list body])"

definition hex_line :: "u8 \<Rightarrow> u16 \<Rightarrow> u8 list \<Rightarrow> string" where
  "hex_line t addr data = CHR '':'' # hex_bytes (record_bytes t addr data)"

definition hex_text :: "(u16 \<times> u8 list) list \<Rightarrow> string" where
  "hex_text recs =
     concat (map (\<lambda>(a, d). hex_line 0x00 a d @ [CHR 0x0A]) recs) @ hex_line 0x01 0 [] @ [CHR 0x0A]"

text \<open>The memory the records describe, the later record winning, and its size.\<close>

fun described :: "(u16 \<times> u8 list) list \<Rightarrow> (nat \<Rightarrow> u8 option) \<Rightarrow> nat \<Rightarrow> u8 option" where
  "described [] f = f"
| "described ((a, d) # recs) f = described recs (overlay (unat a) d f)"

definition extent :: "(u16 \<times> u8 list) list \<Rightarrow> nat" where
  "extent recs = foldr (\<lambda>(a, d) n. max (unat a + length d) n) recs 0"

definition well_formed :: "(u16 \<times> u8 list) list \<Rightarrow> bool" where
  "well_formed recs \<longleftrightarrow> (\<forall>(a, d) \<in> set recs. length d \<le> 255 \<and> unat a + length d \<le> 65536)"

section \<open>Digits\<close>

lemma nibble_digit: "d < 16 \<Longrightarrow> nibble (of_char (digit_char d)) = Inr (of_nat d)"
proof -
  assume "d < 16"
  then have "d \<in> {0, 1, 2, 3, 4, 5, 6, 7, 8, 9, 10, 11, 12, 13, 14, 15}"
    by (simp add: eval_nat_numeral less_Suc_eq)
  then show "nibble (of_char (digit_char d)) = Inr (of_nat d)"
    by (elim insertE) (simp_all add: nibble_def digit_char_def char_eval)
qed

lemma nibbles_join: "push_bit 4 (of_nat (unat b div 16)) OR of_nat (unat b mod 16) = (b :: u8)"
proof -
  have "unat b div 16 < 256" using unat_u8_less [of b] by linarith
  then have q: "take_bit 8 (unat b div 16) = unat b div 16" by (simp add: take_bit_nat_eq_self)
  have h: "(of_nat (unat b div 16) :: u8) = drop_bit 4 b"
    by (rule word_unat_eq_iff [THEN iffD2])
      (simp add: drop_bit_eq_div unat_div unsigned_of_nat q)
  have l: "(of_nat (unat b mod 16) :: u8) = take_bit 4 b"
    by (rule word_unat_eq_iff [THEN iffD2])
      (simp add: unsigned_take_bit_eq take_bit_eq_mod unsigned_of_nat unat_mod)
  show ?thesis unfolding h l
    by (rule bit_word_eqI) (auto simp: bit_simps)
qed

lemma decode_hex_bytes: "decode_hex (str_bytes (hex_bytes bs)) = Inr bs"
proof (induction bs)
  case (Cons b bs)
  have "str_bytes (hex_bytes (b # bs)) =
      of_char (digit_char (unat b div 16)) # of_char (digit_char (unat b mod 16)) # str_bytes (hex_bytes bs)"
    by (simp add: hex_bytes_def str_bytes_def fmt_hex_two)
  moreover have "unat b div 16 < 16" using unat_u8_less [of b] by (simp add: div_less_iff_less_mult)
  ultimately show ?case using Cons.IH by (simp add: nibble_digit nibbles_join del: of_char_of)
qed (simp add: hex_bytes_def str_bytes_def)

lemma length_hex_bytes: "length (hex_bytes bs) = 2 * length bs"
  by (induction bs) (simp_all add: hex_bytes_def fmt_hex_two)

lemma hex_bytes_solid: "c \<in> set (hex_bytes bs) \<Longrightarrow> ascii_solid c"
  by (auto simp: hex_bytes_def fmt_hex_two intro!: digit_char_solid simp: div_less_iff_less_mult)

section \<open>Lines and trimming\<close>

lemma ascii_solid_no_lf: "ascii_solid c \<Longrightarrow> c \<noteq> CHR 0x0A"
  by (auto simp: ascii_solid_def)

lemma ascii_solid_no_cr: "ascii_solid c \<Longrightarrow> c \<noteq> CHR 0x0D"
  by (auto simp: ascii_solid_def)

lemma split_inclusive_line:
  "\<forall>c \<in> set l. c \<noteq> CHR 0x0A \<Longrightarrow>
     split_inclusive cur (l @ CHR 0x0A # rest) = (cur @ l @ [CHR 0x0A]) # split_inclusive [] rest"
  by (induction l arbitrary: cur) auto

lemma lines_line:
  assumes "\<forall>c \<in> set l. ascii_solid c" and "l \<noteq> []"
  shows "lines (l @ CHR 0x0A # rest) = l # lines rest"
proof -
  have n: "\<forall>c \<in> set l. c \<noteq> CHR 0x0A" using assms(1) ascii_solid_no_lf by blast
  have "last l \<noteq> CHR 0x0D" using assms ascii_solid_no_cr last_in_set by blast
  then show ?thesis
    by (simp add: lines_def split_inclusive_line [OF n] strip_eol_def strip_suffix_char_def)
qed

lemma utf8_WS_last:
  "n \<in> set WS_CODEPOINTS \<Longrightarrow>
     (of_char (last (utf8 n)) :: nat) \<le> 0x20 \<or> 0x80 \<le> (of_char (last (utf8 n)) :: nat)"
  by (auto simp: WS_CODEPOINTS_def utf8_def)

lemma ws_end_solid:
  assumes "s \<noteq> []" and "ascii_solid (last s)"
  shows "ws_end s = 0"
proof -
  have "find (\<lambda>n. suffix (utf8 n) s) WS_CODEPOINTS = None"
  proof (rule ccontr)
    assume "find (\<lambda>n. suffix (utf8 n) s) WS_CODEPOINTS \<noteq> None"
    then obtain n where p: "suffix (utf8 n) s" and n: "n \<in> set WS_CODEPOINTS"
      by (auto dest: find_SomeD)
    moreover have "utf8 n \<noteq> []" using length_utf8_pos [of n] by fastforce
    ultimately have "last (utf8 n) = last s" by (auto simp: suffix_def)
    with utf8_WS_last [OF n] assms(2) show False by (auto simp: ascii_solid_def)
  qed
  then show ?thesis by (simp add: ws_end_def)
qed

lemma trim_solid:
  assumes "\<forall>c \<in> set s. ascii_solid c" and "s \<noteq> []"
  shows "trim s = s"
proof -
  have "ws_at s = 0" using assms by (cases s) auto
  moreover have "ws_end s = 0" using assms by (intro ws_end_solid) auto
  ultimately show ?thesis by (simp add: trim_def trim_start.simps trim_end.simps)
qed

lemma trim_end_solid_hd: "s \<noteq> [] \<Longrightarrow> ascii_solid (hd s) \<Longrightarrow> trim_end s \<noteq> []"
proof (induction s rule: trim_end.induct)
  case (1 s)
  show ?case
  proof (cases "ws_end s = 0")
    case True
    with "1.prems" show ?thesis by (simp add: trim_end.simps)
  next
    case False
    then obtain n where n: "find (\<lambda>n. suffix (utf8 n) s) WS_CODEPOINTS = Some n"
      and w: "ws_end s = length (utf8 n)" by (auto simp: ws_end_def split: option.splits)
    from find_SomeD [OF n] have p: "suffix (utf8 n) s" and m: "n \<in> set WS_CODEPOINTS" by auto
    have "length (utf8 n) \<noteq> length s"
    proof
      assume "length (utf8 n) = length s"
      with p have "utf8 n = s" by (metis suffix_length_le suffix_order.antisym suffix_def append_eq_append_conv append_Nil)
      with utf8_WS_hd [OF m] "1.prems" show False by (auto simp: ascii_solid_def)
    qed
    with suffix_length_le [OF p] w have lt: "ws_end s < length s" by simp
    then have "take (length s - ws_end s) s \<noteq> []" and "hd (take (length s - ws_end s) s) = hd s"
      using "1.prems" by (auto simp: hd_take)
    with "1.IH" False "1.prems" show ?thesis by (subst trim_end.simps) simp
  qed
qed

lemma trim_solid_hd: "ascii_solid c \<Longrightarrow> trim (c # s) \<noteq> []"
  using trim_end_solid_hd [of "c # s"] by (simp add: trim_def trim_start.simps)

lemma hex_line_solid: "\<forall>c \<in> set (hex_line t a d). ascii_solid c"
  by (auto simp: hex_line_def hex_bytes_solid) (simp add: ascii_solid_def)

section \<open>One record\<close>

lemma record_bytes_eq:
  "record_bytes t a d = [of_nat (length d), ucast (drop_bit 8 a), ucast a, t] @ d
     @ [- sum_list (of_nat (length d) # to_be16 a @ t # d)]"
  by (simp add: record_bytes_def to_be16_def Let_def)

lemma hex_record_line:
  assumes "length d \<le> 255"
  shows "hex_record line (hex_line t a d) = Inr (record_bytes t a d)"
proof -
  have u: "unat (of_nat (length d) :: u8) = length d"
    using assms by (simp add: unsigned_of_nat take_bit_nat_eq_self)
  have "foldl (+) (k :: u8) xs = k + sum_list xs" for k xs
    by (induction xs arbitrary: k) (simp_all add: add.assoc)
  then have "foldl (+) 0 (record_bytes t a d) = 0" by (simp add: record_bytes_def Let_def)
  moreover have "length (record_bytes t a d) = length d + 5" "record_bytes t a d ! 0 = of_nat (length d)"
    by (simp_all add: record_bytes_eq)
  ultimately show ?thesis
    by (simp add: hex_record_def hex_line_def length_hex_bytes decode_hex_bytes u Let_def)
qed

lemma hex_apply_line:
  assumes "length d \<le> 255" and "unat a + length d \<le> 65536" and "base st = 0"
  obtains st' where "hex_apply line (record_bytes 0 a d) st = Inr (Some st')"
    and "mem_at (mem st') = overlay (unat a) d (mem_at (mem st))"
    and "length (mem st') = max (length (mem st)) (unat a + length d)"
    and "lowest st' = min (lowest st) (ucast a)" and "saw_data st'" and "base st' = 0"
proof -
  let ?bs = "record_bytes 0 a d"
  have u: "unat (of_nat (length d) :: u8) = length d"
    using assms(1) by (simp add: unsigned_of_nat take_bit_nat_eq_self)
  have b: "?bs ! 0 = of_nat (length d)" "?bs ! 3 = 0" "from_be16 (?bs ! 1) (?bs ! 2) = a"
    "take (length d) (drop 4 ?bs) = d" "4 + length d \<le> length ?bs"
    by (simp_all add: record_bytes_eq)
  have ua: "unat (ucast a :: u32) = unat a"
    by (simp add: unsigned_ucast_eq take_bit_nat_eq_self less_trans [OF unat_u16_less])
  have "\<exists>st'. hex_apply line ?bs st = Inr (Some st')"
    using assms(2) by (simp add: hex_apply_def Let_def b b(3) [unfolded One_nat_def] u assms(3) ua)
  then obtain st' where s: "hex_apply line ?bs st = Inr (Some st')" by blast
  from hex_apply_data [OF b(2) _ s] b u ua assms(3) that [OF s] show ?thesis by simp
qed

section \<open>A list of records\<close>

lemma hex_lines_eof: "hex_lines idx (hex_line 1 0 [] # rest) st = Inr st"
proof -
  have "hex_apply (Suc idx) (record_bytes 1 0 []) st = Inr None"
    by (simp add: hex_apply_def record_bytes_eq Let_def)
  moreover have "trim (hex_line 1 0 []) = hex_line 1 0 []" "hex_line 1 0 [] \<noteq> []"
    by (rule trim_solid [OF hex_line_solid]) (simp_all add: hex_line_def)
  moreover have "hex_record (Suc idx) (hex_line 1 0 []) = Inr (record_bytes 1 0 [])"
    by (rule hex_record_line) simp
  ultimately show ?thesis by (simp add: Let_def)
qed

lemma hex_lines_records:
  assumes "well_formed recs" and "base st = 0"
  shows "\<exists>st'. hex_lines idx (map (\<lambda>(a, d). hex_line 0 a d) recs @ hex_line 1 0 [] # rest) st = Inr st'
    \<and> mem_at (mem st') = described recs (mem_at (mem st))
    \<and> length (mem st') = max (length (mem st)) (extent recs)
    \<and> lowest st' = foldr (\<lambda>(a, d) w. min (ucast a) w) recs (lowest st)
    \<and> saw_data st' = (saw_data st \<or> recs \<noteq> [])"
  using assms
proof (induction recs arbitrary: idx st)
  case Nil
  then show ?case by (simp add: hex_lines_eof extent_def del: hex_lines.simps)
next
  case (Cons r recs)
  obtain a d where r: "r = (a, d)" by (cases r)
  with Cons.prems have wf: "length d \<le> 255" "unat a + length d \<le> 65536" "well_formed recs"
    by (auto simp: well_formed_def)
  from hex_apply_line [OF wf(1,2) Cons.prems(2)] obtain st1 where
    s1: "hex_apply (Suc idx) (record_bytes 0 a d) st = Inr (Some st1)"
      "mem_at (mem st1) = overlay (unat a) d (mem_at (mem st))"
      "length (mem st1) = max (length (mem st)) (unat a + length d)"
      "lowest st1 = min (lowest st) (ucast a)" "saw_data st1" "base st1 = 0" by metis
  have "trim (hex_line 0 a d) = hex_line 0 a d" "hex_line 0 a d \<noteq> []"
    by (rule trim_solid [OF hex_line_solid]) (simp_all add: hex_line_def)
  then have step: "hex_lines idx (map (\<lambda>(a, d). hex_line 0 a d) (r # recs) @ hex_line 1 0 [] # rest) st
      = hex_lines (Suc idx) (map (\<lambda>(a, d). hex_line 0 a d) recs @ hex_line 1 0 [] # rest) st1"
    by (simp add: r s1(1) hex_record_line [OF wf(1)])
  from Cons.IH [OF wf(3) s1(6), of "Suc idx"] obtain st' where
    "hex_lines (Suc idx) (map (\<lambda>(a, d). hex_line 0 a d) recs @ hex_line 1 0 [] # rest) st1 = Inr st'"
    "mem_at (mem st') = described recs (mem_at (mem st1))"
    "length (mem st') = max (length (mem st1)) (extent recs)"
    "lowest st' = foldr (\<lambda>(a, d) w. min (ucast a) w) recs (lowest st1)"
    "saw_data st' = (saw_data st1 \<or> recs \<noteq> [])" by blast
  moreover have "foldr (\<lambda>(a, d) w. min (ucast a) w) recs (min x y) =
      min y (foldr (\<lambda>(a, d) w. min (ucast a) w) recs (x :: u32))" for x y
    by (induction recs) (auto simp: min.left_commute min.commute)
  ultimately show ?case unfolding step using s1 by (auto simp: r extent_def max.assoc)
qed

lemma lines_hex_text:
  "lines (hex_text recs @ rest) = map (\<lambda>(a, d). hex_line 0 a d) recs @ hex_line 1 0 [] # lines rest"
proof (induction recs)
  case Nil
  have "hex_line 1 0 [] \<noteq> []" by (simp add: hex_line_def)
  with lines_line [OF hex_line_solid, of 1 0 "[]"] show ?case by (simp add: hex_text_def)
next
  case (Cons r recs)
  obtain a d where r: "r = (a, d)" by (cases r)
  have "hex_line 0 a d \<noteq> []" by (simp add: hex_line_def)
  with lines_line [OF hex_line_solid, of 0 a d "hex_text recs @ rest"] Cons.IH
  show ?case by (simp add: hex_text_def r)
qed

lemma map_mem_at: "map f m = map (\<lambda>a. f (mem_at m a)) [0..<length m]"
  by (rule nth_equalityI) (simp_all add: mem_at_def)

lemma length_filter_mem_at:
  "length (filter P m) = card {a. a < length m \<and> P (mem_at m a)}"
  by (simp add: length_filter_conv_card mem_at_def) (rule arg_cong [of _ _ card], auto)

lemma parse_hex_text:
  assumes "well_formed recs" and "0 < extent recs"
  shows "parse (hex_text recs @ rest) = Inr
    \<lparr>bytes = map (\<lambda>a. case described recs (\<lambda>_. None) a of Some b \<Rightarrow> b | None \<Rightarrow> 0) [0..<extent recs],
     lowest_addr = foldr (\<lambda>(a, d) w. min (ucast a) w) recs (- 1),
     gap_bytes = card {a. a < extent recs \<and> described recs (\<lambda>_. None) a = None}\<rparr>"
proof -
  have r: "recs \<noteq> []" using assms(2) by (auto simp: extent_def)
  have z: "mem_at [] = (\<lambda>_. None)" by (simp add: mem_at_def fun_eq_iff)
  from hex_lines_records [OF assms(1), of hex_state_new 0 "lines rest"] r obtain st where
    s: "hex_lines 0 (lines (hex_text recs @ rest)) hex_state_new = Inr st"
      "mem_at (mem st) = described recs (\<lambda>_. None)" "length (mem st) = extent recs"
      "lowest st = foldr (\<lambda>(a, d) w. min (ucast a) w) recs (- 1)" "saw_data st"
    by (auto simp: lines_hex_text hex_state_new_def z)
  have "ascii_solid (CHR '':'')" by (simp add: ascii_solid_def)
  moreover obtain t where "hex_text recs @ rest = CHR '':'' # t"
    by (cases recs) (auto simp: hex_text_def hex_line_def)
  ultimately have "trim (hex_text recs @ rest) \<noteq> []" using trim_solid_hd by metis
  moreover have "mem st \<noteq> []" using s(3) assms(2) by auto
  ultimately show ?thesis
    using s by (simp add: parse_def map_mem_at [of _ "mem st"] length_filter_mem_at)
qed

text \<open>
  C21: \<open>parse\<close> reads back the Intel HEX text of any list of data records, in any
  order and overlapping or not, whatever text follows the end-of-file record: every byte
  of the image is the one the last record covering its address gives, zero where no
  record covers it; the image ends where the furthest record ends, its lowest address is the
  least record address, and the gap count is the number of uncovered addresses.
\<close>

theorem parse_reads_records:
  assumes "well_formed recs" and "0 < extent recs"
  shows "parse (hex_text recs @ rest) = Inr
    \<lparr>bytes = map (\<lambda>a. case described recs (\<lambda>_. None) a of Some b \<Rightarrow> b | None \<Rightarrow> 0) [0..<extent recs],
     lowest_addr = foldr (\<lambda>(a, d) w. min (ucast a) w) recs (- 1),
     gap_bytes = card {a. a < extent recs \<and> described recs (\<lambda>_. None) a = None}\<rparr>"
  using assms by (rule parse_hex_text)

theorem parse_reads_records_witness:
  "parse (hex_text [(5, [0x55]), (0, [0xAA])]) = Inr
     \<lparr>bytes = [0xAA, 0, 0, 0, 0, 0x55], lowest_addr = 0, gap_bytes = 4\<rparr>"
proof -
  let ?recs = "[(5, [0x55]), (0, [0xAA])] :: (u16 \<times> u8 list) list"
  have "well_formed ?recs" "0 < extent ?recs" by (simp_all add: well_formed_def extent_def)
  from parse_reads_records [OF this, of "[]"]
  have p: "parse (hex_text ?recs) = Inr
    \<lparr>bytes = map (\<lambda>a. case described ?recs (\<lambda>_. None) a of Some b \<Rightarrow> b | None \<Rightarrow> 0) [0..<extent ?recs],
     lowest_addr = foldr (\<lambda>(a, d) w. min (ucast a) w) ?recs (- 1),
     gap_bytes = card {a. a < extent ?recs \<and> described ?recs (\<lambda>_. None) a = None}\<rparr>" by simp
  have "{a. a < extent ?recs \<and> described ?recs (\<lambda>_. None) a = None} = {1, 2, 3, 4}"
    by (auto simp: extent_def overlay_def)
  then show ?thesis unfolding p by (simp add: extent_def overlay_def upt_rec)
qed

theorem parsed_image_bounds_witness:
  "\<exists>img. parse (hex_text [(5, [0x55])]) = Inr img \<and> 5 \<le> gap_bytes img \<and> lowest_addr img = 5"
proof -
  have "well_formed [(5, [0x55])]" "0 < extent [(5, [0x55])]" by (simp_all add: well_formed_def extent_def)
  from parse_hex_text [OF this, of "[]"] obtain img where
    p: "parse (hex_text [(5, [0x55])]) = Inr img" and l: "lowest_addr img = 5" by simp
  from parsed_image_bounds [OF p] p l show ?thesis by simp
qed

text \<open>
  A data record without data still moves the end of the image. An empty record
  at address a behind a one-byte image makes the image a bytes long, the bytes in
  between zero and counted as gaps, although no record covers them.
\<close>

lemma empty_record_extends_image:
  assumes "0 < a"
  shows "parse (hex_text [(0, [b]), (a, [])]) = Inr
    \<lparr>bytes = b # replicate (unat a - 1) 0, lowest_addr = 0, gap_bytes = unat a - 1\<rparr>"
proof -
  let ?recs = "[(0, [b]), (a, [])] :: (u16 \<times> u8 list) list"
  have a: "0 < unat a" using assms by (simp add: unat_gt_0)
  then have e: "extent ?recs = unat a" by (simp add: extent_def)
  have "well_formed ?recs" using less_imp_le [OF unat_u16_less [of a]] by (simp add: well_formed_def)
  moreover have "0 < extent ?recs" using a e by simp
  moreover have d: "described ?recs (\<lambda>_. None) x = (if x = 0 then Some b else None)" for x
    by (auto simp: overlay_def)
  moreover have "map (\<lambda>x. case if x = 0 then Some b else None of Some b \<Rightarrow> b | None \<Rightarrow> 0) [0..<unat a]
      = b # replicate (unat a - 1) 0"
    using a by (intro nth_equalityI) (auto simp: nth_Cons')
  moreover have "{x. x < unat a \<and> (if x = 0 then Some b else None) = None} = {1..<unat a}" by auto
  ultimately show ?thesis using parse_hex_text [of ?recs "[]"] unfolding e d by simp
qed

text \<open>
  C39: No single corrupted byte passes. If a record's text is accepted, the text
  with any one of its bytes, the checksum and the count included, printed as
  another value is refused.
\<close>

theorem corrupted_record_refused:
  assumes "hex_record line (CHR '':'' # hex_bytes bs) = Inr bs'" and "i < length bs" and "b \<noteq> bs ! i"
  shows "\<exists>e. hex_record line' (CHR '':'' # hex_bytes (bs[i := b])) = Inl e"
proof (rule ccontr)
  have eq: "hex_record l (CHR '':'' # hex_bytes cs) = Inr cs' \<Longrightarrow> cs' = cs" for l cs cs'
    by (auto simp: hex_record_def decode_hex_bytes Let_def split: if_splits)
  have "bs = take i bs @ bs ! i # drop (Suc i) bs" using assms(2) by (rule id_take_nth_drop)
  moreover have "bs[i := b] = take i bs @ b # drop (Suc i) bs" using assms(2) by (rule upd_conv_take_nth_drop)
  ultimately have s: "sum_list (bs[i := b]) = sum_list bs - bs ! i + b"
    by (metis (no_types, opaque_lifting) add.commute add.left_commute add_diff_cancel_left' sum_list.Cons sum_list.append)
  assume "\<nexists>e. hex_record line' (CHR '':'' # hex_bytes (bs[i := b])) = Inl e"
  then obtain cs where c: "hex_record line' (CHR '':'' # hex_bytes (bs[i := b])) = Inr cs"
    by (cases "hex_record line' (CHR '':'' # hex_bytes (bs[i := b]))") auto
  have "sum_list (bs[i := b]) = 0" using hex_record_ok [OF c] eq [OF c] by simp
  moreover have "sum_list bs = 0" using hex_record_ok [OF assms(1)] eq [OF assms(1)] by simp
  ultimately show False using s assms(3) by simp
qed

theorem corrupted_record_refused_witness:
  "\<exists>e. hex_record 1 (CHR '':'' # hex_bytes ((record_bytes 0 0 [1, 2, 3])[4 := 9])) = Inl e"
proof -
  have "hex_record 1 (hex_line 0 0 [1, 2, 3]) = Inr (record_bytes 0 0 [1, 2, 3])"
    by (rule hex_record_line) simp
  then have r: "hex_record 1 (CHR '':'' # hex_bytes (record_bytes 0 0 [1, 2, 3])) = Inr (record_bytes 0 0 [1, 2, 3])"
    by (simp add: hex_line_def)
  show ?thesis by (rule corrupted_record_refused [OF r]) (simp_all add: record_bytes_eq)
qed

end
