(* ===== verification/Rxprobe.thy ===== *)
theory Rxprobe imports Messages Driver_Tape begin

text \<open>
  The bench instrument \<open>src/src/bin/rxprobe.rs\<close>: it opens a port through \<open>SerialWire\<close>, counts
  what arrives at several rates, and in between sends one frame the way a session does. Its
  standard output is a text; a failed \<open>expect\<close> ends it with exit code 101.
\<close>

section \<open>Counting\<close>

definition HELLO :: "u8 list" where
  "HELLO = [0x68, 0x65, 0x6C, 0x6C, 0x6F]"

text \<open>\<open>slice::windows\<close>\<close>

definition windows :: "nat \<Rightarrow> 'a list \<Rightarrow> 'a list list" where
  "windows n xs = map (\<lambda>i. take n (drop i xs)) [0 ..< Suc (length xs) - n]"

definition legible :: "u8 list \<Rightarrow> bool" where
  "legible sample = list_ex (\<lambda>w. w = HELLO) (windows 5 sample)"

partial_function (option) count_loop ::
    "'w wire \<Rightarrow> int \<Rightarrow> nat \<Rightarrow> u8 list \<Rightarrow> 'w \<Rightarrow> ((io_error + nat \<times> u8 list) \<times> 'w) option" where
  "count_loop W deadline n sample w =
     (case clock_now W w of
        (t, w) \<Rightarrow>
          if \<not> t < deadline then Some (Inr (n, sample), w)
          else
            (case wire_read W 256 w of
               (Inl e, w) \<Rightarrow> Some (Inl e, w)
             | (Inr bs, w) \<Rightarrow>
                 count_loop W deadline (n + length bs)
                   (if length sample < 40 then sample @ take 40 bs else sample) w))"

definition count_text :: "nat \<Rightarrow> string \<Rightarrow> io_error + nat \<times> u8 list \<Rightarrow> string" where
  "count_text secs lbl r =
     (case r of
        Inl e \<Rightarrow> println (lbl @ '': read error '' @ message e)
      | Inr (n, sample) \<Rightarrow>
          println (lbl @ '': '' @ fmt_dec n @ '' bytes in '' @ fmt_dec secs @ ''s, legible=''
            @ (if legible sample then ''true'' else ''false'')))"

section \<open>The phases\<close>

text \<open>
  A stage of the program goes on or panics, with what it printed; it may fail to return.
\<close>

type_synonym 'w stage = "'w \<Rightarrow> (bool \<times> string \<times> 'w) option"

definition printed :: "string \<Rightarrow> 'w stage" where
  "printed s = (\<lambda>w. Some (True, println s, w))"

definition counted :: "'w wire \<Rightarrow> nat \<Rightarrow> string \<Rightarrow> 'w stage" where
  "counted W secs lbl =
     (\<lambda>w. case clock_now W w of
        (t, w) \<Rightarrow>
          (case count_loop W (t + millis (1000 * int secs)) 0 [] w of
             None \<Rightarrow> None
           | Some (r, w) \<Rightarrow> Some (True, count_text secs lbl r, w)))"

definition expected :: "('w \<Rightarrow> (io_error + unit) \<times> 'w) \<Rightarrow> 'w stage" where
  "expected m = (\<lambda>w. case m w of (Inr _, w) \<Rightarrow> Some (True, [], w) | (Inl _, w) \<Rightarrow> Some (False, [], w))"

primrec stages :: "'w stage list \<Rightarrow> 'w stage" where
  "stages [] = (\<lambda>w. Some (True, [], w))"
| "stages (m # ms) =
     (\<lambda>w. case m w of
        None \<Rightarrow> None
      | Some (False, out, w) \<Rightarrow> Some (False, out, w)
      | Some (True, out, w) \<Rightarrow>
          (case stages ms w of
             None \<Rightarrow> None
           | Some (going, out', w) \<Rightarrow> Some (going, out @ out', w)))"

definition PROBE_BYTES :: "u8 list" where
  "PROBE_BYTES =
     [0x46, 0xb9, 0x6a, 0x00, 0x0c, 0x8f, 0xff, 0xfd, 0x00, 0x06, 0xa0, 0x81, 0x28, 0x16]"

definition probe_phases :: "'w wire \<Rightarrow> 'w stage" where
  "probe_phases W = stages
     [printed ''opened at 2400 via SerialWire'',
      counted W 3 ''phase 1 @2400 (mismatch: expect garbage bytes)'',
      expected (wire_set_baud W 9600),
      counted W 4 ''phase 2 @9600 (match: expect legible)'',
      expected (wire_write_all W PROBE_BYTES),
      expected (wire_drain W),
      expected (wire_set_baud W 9600),
      counted W 4 ''phase 2b write+drain+switch @9600 (expect legible)'',
      expected (wire_set_baud W 115200),
      counted W 4 ''phase 3 @115200 (mismatch: expect garbage bytes)'',
      expected (wire_set_baud W 9600),
      counted W 4 ''phase 4 @9600 again (match: expect legible)'']"

text \<open>\<open>main\<close>; its arguments stand behind the name of the program.\<close>

definition rxprobe_main ::
    "target \<Rightarrow> 'p serial_port \<Rightarrow> string list \<Rightarrow> 'p \<Rightarrow> (nat \<times> string \<times> 'p) option" where
  "rxprobe_main tgt P argv w =
     (case argv of
        [] \<Rightarrow> Some (101, [], w)
      | dev # _ \<Rightarrow>
          (case serial_open tgt P dev 2400 WIRE_PARITY w of
             Inl (e, w) \<Rightarrow> Some (101, [], w)
           | Inr s \<Rightarrow>
               (case probe_phases (wire_impl tgt P) s of
                  None \<Rightarrow> None
                | Some (going, out, s) \<Rightarrow> Some (if going then 0 else 101, out, port s))))"

section \<open>What the probe does to the wire\<close>

text \<open>The search over windows is the search for a contiguous part.\<close>

lemma legible_iff: "legible sample \<longleftrightarrow> sublist HELLO sample"
proof
  assume "legible sample"
  then obtain i where "HELLO = take 5 (drop i sample)" by (auto simp: legible_def windows_def list_ex_iff)
  then show "sublist HELLO sample" by (metis sublist_drop sublist_take sublist_order.order_trans)
next
  assume "sublist HELLO sample"
  then obtain ps ss where s: "sample = ps @ HELLO @ ss" by (auto simp: sublist_def)
  then have "take 5 (drop (length ps) sample) = HELLO" "length ps < Suc (length sample) - 5"
    by (simp_all add: HELLO_def)
  then show "legible sample" by (force simp: legible_def windows_def list_ex_iff)
qed

lemma probe_bytes_frame: "PROBE_BYTES = encode (baud_probe_frame 0xFD)"
  by code_simp

text \<open>
  \<open>puts m A\<close>: on a taped wire \<open>m\<close> returns, with the operations \<open>A\<close> on the tape if it
  goes on and a part of them otherwise.
\<close>

definition puts :: "('w \<times> wire_event list) stage \<Rightarrow> wire_event list \<Rightarrow> bool" where
  "puts m A \<longleftrightarrow> (\<forall>wt. \<exists>going out wt' B. m wt = Some (going, out, wt')
     \<and> commands (snd wt') = commands (snd wt) @ B \<and> prefix B A \<and> (going \<longrightarrow> B = A))"

lemma puts_printed: "puts (printed s) []"
  unfolding puts_def printed_def by (intro allI exI [of _ True]) simp

lemma puts_expected: "e \<noteq> ReadEvt \<Longrightarrow> puts (expected (tape_call e m)) [e]"
  by (auto simp: puts_def expected_def tape_call_def commands_def split: prod.splits sum.splits)

lemma count_taped:
  assumes "timely W clk"
  shows "\<exists>r wt'. count_loop (taped W) deadline n sample wt = Some (r, wt')
    \<and> commands (snd wt') = commands (snd wt)"
proof (induction "nat (deadline - clk (fst wt))" arbitrary: n sample wt rule: less_induct)
  case less
  obtain w tape where wt: "wt = (w, tape)" by (cases wt)
  obtain t w1 where now: "clock_now (taped W) wt = (t, w1, tape)" and t: "t = clk w" "clk w \<le> clk w1"
    using assms by (cases "clock_now W w") (auto simp: wt taped_def timely_def dest: spec [of _ w])
  show ?case
  proof (cases "t < deadline")
    case False
    then show ?thesis using now by (simp add: count_loop.simps wt)
  next
    case True
    obtain r w2 where rd: "wire_read W 256 w1 = (r, w2)" by (cases "wire_read W 256 w1")
    then have lt: "clk w1 < clk w2" using assms unfolding timely_def by (metis snd_conv)
    have tr: "wire_read (taped W) 256 (w1, tape) = (r, w2, tape @ [ReadEvt])"
      using rd by (simp add: taped_def tape_call_def)
    have c: "commands (tape @ [ReadEvt]) = commands tape" by (simp add: commands_def)
    have IH: "\<exists>r wt'. count_loop (taped W) deadline n' sample' (w2, tape @ [ReadEvt]) = Some (r, wt')
        \<and> commands (snd wt') = commands (snd (w2, tape @ [ReadEvt]))" for n' sample'
      by (rule less) (use t lt True in \<open>simp add: wt\<close>)
    show ?thesis
      using IH now tr True by (cases r) (simp_all add: count_loop.simps [of _ _ _ _ "(w, tape)"] wt c)
  qed
qed

lemma puts_counted:
  assumes "timely W clk"
  shows "puts (counted (taped W) secs lbl) []"
  unfolding puts_def
proof
  fix wt :: "'a \<times> wire_event list"
  obtain t wt1 where now: "clock_now (taped W) wt = (t, wt1)" by (cases "clock_now (taped W) wt")
  have "snd wt1 = snd wt" using now by (cases wt) (auto dest: taped_now)
  with count_taped [OF assms, of "t + millis (1000 * int secs)" 0 "[]" wt1] now
  show "\<exists>going out wt' B. counted (taped W) secs lbl wt = Some (going, out, wt')
      \<and> commands (snd wt') = commands (snd wt) @ B \<and> prefix B [] \<and> (going \<longrightarrow> B = [])"
    by (auto simp: counted_def)
qed

lemma puts_stages_Cons: "puts m A \<Longrightarrow> puts (stages ms) B \<Longrightarrow> puts (stages (m # ms)) (A @ B)"
  unfolding puts_def
proof
  fix wt :: "'a \<times> wire_event list"
  assume m: "\<forall>wt. \<exists>going out wt' C. m wt = Some (going, out, wt')
      \<and> commands (snd wt') = commands (snd wt) @ C \<and> prefix C A \<and> (going \<longrightarrow> C = A)"
    and ms: "\<forall>wt. \<exists>going out wt' C. stages ms wt = Some (going, out, wt')
      \<and> commands (snd wt') = commands (snd wt) @ C \<and> prefix C B \<and> (going \<longrightarrow> C = B)"
  from m obtain going out wt1 C where 1: "m wt = Some (going, out, wt1)"
    "commands (snd wt1) = commands (snd wt) @ C" "prefix C A" "going \<longrightarrow> C = A" by metis
  from ms obtain going' out' wt2 D where 2: "stages ms wt1 = Some (going', out', wt2)"
    "commands (snd wt2) = commands (snd wt1) @ D" "prefix D B" "going' \<longrightarrow> D = B" by metis
  show "\<exists>going out wt' C. stages (m # ms) wt = Some (going, out, wt')
      \<and> commands (snd wt') = commands (snd wt) @ C \<and> prefix C (A @ B) \<and> (going \<longrightarrow> C = A @ B)"
    using 1 2 by (cases going) auto
qed

lemma puts_stages_Nil: "puts (stages []) []"
  unfolding puts_def by (intro allI exI [of _ True]) simp

definition PROBE_COMMANDS :: "wire_event list" where
  "PROBE_COMMANDS =
     [BaudEvt 9600, WriteEvt (encode (baud_probe_frame 0xFD)), DrainEvt, BaudEvt 9600,
      BaudEvt 115200, BaudEvt 9600]"

lemma puts_probe:
  assumes "timely W clk"
  shows "puts (probe_phases (taped W)) PROBE_COMMANDS"
proof -
  note c = puts_counted [OF assms]
  have "puts (probe_phases (taped W))
      ([] @ [] @ [BaudEvt 9600] @ [] @ [WriteEvt PROBE_BYTES] @ [DrainEvt] @ [BaudEvt 9600] @ []
       @ [BaudEvt 115200] @ [] @ [BaudEvt 9600] @ [] @ [])"
    unfolding probe_phases_def taped_calls
    by (intro puts_stages_Cons puts_stages_Nil puts_printed c puts_expected) simp_all
  then show ?thesis by (simp add: PROBE_COMMANDS_def probe_bytes_frame)
qed

text \<open>
  C38: The probe returns and sends one frame. On every wire whose clock advances it ends, also
  on a line that never stops talking, and what it does to the wire apart from reading is the
  three changes of rate and one write, the baud probe of a session for the reload 0xFD, with a drain
  and a change of rate behind it; if an operation fails, nothing comes after it.
\<close>

theorem probe_sends_one_frame:
  assumes "timely W clk"
  shows "\<exists>going out w' tape. probe_phases (taped W) (w, []) = Some (going, out, (w', tape))
    \<and> prefix (commands tape) PROBE_COMMANDS \<and> (going \<longrightarrow> commands tape = PROBE_COMMANDS)"
  using puts_probe [OF assms, unfolded puts_def, THEN spec, of "(w, [])"] by auto

theorem probe_sends_one_frame_witness:
  "\<exists>going out w' tape. probe_phases (taped scripted) ((0, [[0x68, 0x65]]), []) = Some (going, out, (w', tape))
    \<and> prefix (commands tape) PROBE_COMMANDS \<and> (going \<longrightarrow> commands tape = PROBE_COMMANDS)"
  by (rule probe_sends_one_frame [OF scripted_timely])

end
