(* ===== verification/Spec2Isabelle.thy ===== *)
theory Spec2Isabelle imports Half_Written Stc89_Uart Cli_Args Ihex_Roundtrip Rxprobe begin

text \<open>
  A verification development of \<open>stcbsl\<close>, a host program in Rust that programs STC89
  microcontrollers through their serial bootloader. Paths are under \<open>src/src\<close>.

  \<^bold>\<open>The program.\<close> A layer without I/O holds the protocol. \<open>frame.rs\<close> encodes and decodes
  frames and finds them in a noisy byte stream. \<open>protocol/stc89.rs\<close> reads the status packet of a
  chip and computes, for a job, the list of all steps of a session. \<open>session.rs\<close> walks that
  list: it hands out the next frame and checks each reply. \<open>ihex.rs\<close> reads the image. Above it
  \<open>driver.rs\<close> meets the wire and the clock: \<open>handshake\<close> pulses until the status packet arrives,
  \<open>run\<close> carries out a session. \<open>transport.rs\<close> is the wire over a serial port and
  \<open>bin/stcbsl.rs\<close> the command line, which composes them: read the image, open the port, shake
  hands, plan, run. \<open>bin/rxprobe.rs\<close> is a bench instrument on the same wire.

  \<^bold>\<open>The theories.\<close>
  \<^item> Prelude: machine integers, big-endian bytes, chunks and resizing, the locales \<open>codec\<close> and
    \<open>strict_codec\<close>. Rust_Text: the text functions of the standard library that are used;
    Rust_Format: Debug texts and the decimals of an \<open>f64\<close> quotient.
  \<^item> Frame (\<open>frame.rs\<close>): constants, \<open>Frame\<close>, \<open>Dir\<close>, \<open>encode\<close>, \<open>decode\<close>, \<open>is_echo_of\<close>, \<open>hex\<close>,
    \<open>unhex\<close>; the codec is strict, a changed byte is noticed. Receiver (\<open>frame.rs\<close>): the record of
    the two buffers, \<open>hunt\<close> and \<open>next_frame\<close>; a specification \<open>scan\<close> that they refine, from
    which follow resynchronisation, byte conservation, bounds and independence of chunking.
    Frame_Source is the locale of a receiver as the driver uses it.
  \<^item> Session (\<open>session.rs\<close>): the records of steps and sessions, \<open>next_action\<close>, \<open>advance\<close>, \<open>on_reply\<close>,
    \<open>flash_is_indeterminate\<close>. Step_Walk: the locale \<open>step_walk\<close> of a session as its caller
    sees it, the invariant, reachable sessions.
  \<^item> Protocol (\<open>protocol/mod.rs\<close>): jobs, options, errors, the trait as locale \<open>protocol_family\<close>.
  \<^item> Stc89 (\<open>protocol/stc89.rs\<close>): arithmetic, frames, \<open>parse_status\<close>, \<open>plan\<close>. Stc89_Facts has the
    arithmetic results, Stc89_Status what the parser accepts, Stc89_Plan the layout of a plan
    and the interpretation of the interface, Stc89_Flash the bytes a plan programs,
    Stc89_Safety option byte, addresses and acknowledgements, Stc89_Link phases and line rates.
  \<^item> Ihex (\<open>ihex.rs\<close>): \<open>parse\<close> with its loop state. Ihex_Roundtrip: reading back emitted text.
  \<^item> Driver (\<open>driver.rs\<close>): \<open>handshake\<close> and \<open>run\<close> over any wire and clock. Driver_Run and
    Driver_Handshake: what they do to the wire, how they end, that they return.
    Driver_Tape: a wire that records what is called on it changes nothing, and a tape is read back
    into frames and line rates. Driver_Uart: the locale \<open>uart_wire\<close> of a line with a chip at its end,
    where the rate at which bytes go out matters, its extension \<open>polled_wire\<close>, and what they give: a run
    over steps the chip serves succeeds, and so does a handshake with a chip that sleeps.
    Driver_Chip: the locale of a wire whose rate does not matter, a sublocale.
  \<^item> Transport (\<open>transport.rs\<close>): \<open>SerialWire\<close> over any serial port, its \<open>impl Wire\<close> as
    \<open>wire_impl\<close>, and that it keeps what the driver relies on.
  \<^item> Cli (\<open>bin/stcbsl.rs\<close>): arguments, commands, log and \<open>main\<close>. Cli_Args: printed arguments are
    read back. Cli_Session: \<open>cmd_session\<close> from the open wire on, as a prefix of a plan.
    Stc89_Chip: a chip that answers every planned frame, and a port with it. Stc89_Uart: a chip
    with a state (rates, flash, option byte), that a plan leaves it with the image, and a port that holds
    bytes back until it is drained.
  \<^item> Messages (the \<open>Display\<close> and \<open>Debug\<close> of all errors) and Cli_Text (usage, messages and lines of
    output of \<open>bin/stcbsl.rs\<close>): what is printed, byte for byte. Cli_Report: a session set against
    its plan, the usage text against the parser, the reported clock. Half_Written: sessions that
    stop among the writes and what the user reads then, and a chip that falls silent.
  \<^item> Rxprobe (\<open>bin/rxprobe.rs\<close>): its counting loop and its phases over any wire.
  \<^item> This theory: the properties of whole sessions and of the command line.

  \<^bold>\<open>Conventions.\<close> \<open>Result\<close> is \<open>'e + 'a\<close> with \<open>Inl\<close> for \<open>Err\<close>. An operation of a session that
  indexes its steps returns an option, \<open>None\<close> for the panic. Integers are words of the code's
  width where they are machine integers of a fixed width, \<open>usize\<close> lengths are naturals. The
  log is the list of its events; an error and a line of output are values, and a function gives the
  text of each. The loops of \<open>run\<close> and \<open>handshake\<close> have no bound in
  the code, so they are partial functions to an option; \<open>run_returns\<close> and \<open>handshake_returns\<close>
  show a result for every wire whose clock advances. No fuel is used anywhere.

  \<^bold>\<open>Assumptions.\<close> The wire and the clock are parameters. \<open>timely\<close> (the clock never goes back, a
  read takes time) and \<open>bounded_reads\<close> (a read stays within its buffer) are the only hypotheses on them
  in what is shown of every wire, and each property that uses one names it. The two properties that say how a
  chip gets programmed and what happens when it falls silent rest on \<open>polled_wire\<close>, a line with a chip. \<open>Instant\<close> arithmetic is taken as exact.

  \<^bold>\<open>Outside.\<close> The crates \<open>serialport\<close> and \<open>libc\<close>, the file system and the clock are the records
  \<open>serial_port\<close> and \<open>platform\<close> of functions over the state of the world. \<open>orderly_port\<close> states
  what is assumed of a port where a property needs it. \<open>stc89_hear\<close> describes the chip after what the
  comments of the sources say of it: both negotiation frames are heard at the handshake rate and
  answered at the new one, every other frame is heard and answered at the rate agreed; a rate is the
  clock over 32 and the ticks, and two rates match within a fortieth. That two rates match is a
  hypothesis because the code does not test it: \<open>timer_reload\<close> takes the nearest reload, however far off.
  The port of \<open>polled_wire\<close> is an ideal one: writes take no time, and an answer is there as a whole when it
  is read. \<open>status_read\<close> is the status packet a session read, as its handshake logged it.

  \<^bold>\<open>Not modelled.\<close> The stand-ins of two commands for a build without the \<open>serial\<close> feature, which
  the manifest of the crate never builds as a program, the text of a panic, and the tests. Which
  characters above ASCII a Debug text escapes depends on the Unicode tables of the standard
  library; it is the parameter \<open>shown\<close>.
\<close>

section \<open>Sample runs of the program\<close>

definition sample_cli :: args where
  "sample_cli = args_default\<lparr>arg_port := Some ''ttyUSB0'', command := Some ''write'', positional := [''a.hex'']\<rparr>"

lemma sample_cli_parses: "parse_args [''write'', ''-p'', ''ttyUSB0'', ''a.hex''] = Inr sample_cli"
  by (simp add: parse_args_def parse_loop.simps [of "_ # _"] parse_arg_def flag_arm_def value_arm_def
      next_value_def sample_cli_def args_default_def)

lemma sample_cli_opts: "session_opts sample_cli = session_options_default"
  by (simp add: session_opts_def session_options_default_def args_default_def sample_cli_def)

lemma sample_cli_sel [simp]:
  "arg_port sample_cli = Some ''ttyUSB0''" "command sample_cli = Some ''write''"
  "positional sample_cli = [''a.hex'']" "write_options sample_cli = True" "quiet sample_cli = False"
  "arg_handshake_baud sample_cli = 2400" "wait_s sample_cli = 30"
  by (simp_all add: sample_cli_def args_default_def)

abbreviation sample_text :: string where
  "sample_text \<equiv> hex_text [(0, [0x80])]"

lemma sample_text_parses: "parse sample_text = Inr \<lparr>bytes = [0x80], lowest_addr = 0, gap_bytes = 0\<rparr>"
proof -
  let ?recs = "[(0, [0x80])] :: (u16 \<times> u8 list) list"
  have "well_formed ?recs" "0 < extent ?recs" by (simp_all add: well_formed_def extent_def)
  from parse_hex_text [OF this, of "[]"] show ?thesis
    by (simp add: extent_def overlay_def)
qed

lemma sample_write_succeeds:
  "\<exists>out w'. cli_run (chip_platform sample_text) [''write'', ''-p'', ''ttyUSB0'', ''a.hex''] (0, [])
     = Some (Success, out, w')"
proof -
  have l: "load_image (chip_platform sample_text) ''a.hex'' False w = (Inr [0x80], [ImageLine ''a.hex'' 1], w)" for w
    by (simp add: load_image_def chip_platform_def sample_text_parses)
  obtain sts where p: "plan sample_info (FlashJob [0x80] True) session_options_default = Inr sts"
    using sample_plan [of "[0x80]" True] by auto
  have "\<exists>out w'. cmd_session (chip_platform sample_text) sample_cli (FlashJob [0x80] True) (0, []) = Some (Success, out, w')"
    by (rule chip_platform_session) (use p in \<open>simp_all add: sample_cli_opts\<close>)
  with l show ?thesis
    by (auto simp: cli_run_def sample_cli_parses cmd_write_def)
qed

section \<open>Properties of whole sessions\<close>

text \<open>
  C1: A \<open>write\<close> that succeeds programs the file. When the command line asks for \<open>write\<close> or
  \<open>flash\<close> and the program ends with success, then the file was read and parsed, the port opened,
  and the frames of the session program exactly the image: each address below its
  length with the byte of the image, the rest of the erased region with 0xFF, nothing else.
  The tape only records the session (taping changes nothing of it).
\<close>

theorem cli_write_programs_file:
  assumes "parse_args argv = Inr a" and "command a = Some c" and "c \<in> {''write'', ''flash''}"
    and "cli_run X argv w = Some (Success, out, w')"
  shows "\<exists>path rest tx img w1 dev s out' s' tape.
    positional a = path # rest \<and> read_to_string X path w = (Inr tx, w1) \<and> parse tx = Inr img
    \<and> arg_port a = Some dev
    \<and> serial_open (target X) (serial X) dev (arg_handshake_baud a)
        (if parity_even a then EvenParity else NoParity) w1 = Inr s
    \<and> drive_session (taped (wire_impl (target X) (serial X))) a (FlashJob (bytes img) (write_options a)) (s, [])
        = Some (Success, out', (s', tape)) \<and> port s' = w'
    \<and> (\<forall>x. written (session_frames a tape) x =
          (if x < length (bytes img) then Some (bytes img ! x)
           else if x < erase_blocks_for (length (bytes img)) * ERASE_BLOCK then Some 0xFF
           else None))"
proof -
  have "argv \<noteq> []" using assms(1,2) by (auto simp: parse_args_def args_default_def)
  with assms have "cmd_write X a w = Some (Success, out, w')" by (auto simp: cli_run_def)
  then obtain path rest img out1 w1 out2 where pos: "positional a = path # rest"
    and l: "load_image X path (quiet a) w = (Inr img, out1, w1)"
    and s: "cmd_session X a (FlashJob img (write_options a)) w1 = Some (Success, out2, w')"
    by (auto simp: cmd_write_def split: list.splits prod.splits sum.splits option.splits)
  from l obtain tx i where f: "read_to_string X path w = (Inr tx, w1)" "parse tx = Inr i" "img = bytes i"
    by (rule load_image_result)
  from s obtain dev ws out3 s' where d: "arg_port a = Some dev"
    and o': "serial_open (target X) (serial X) dev (arg_handshake_baud a)
        (if parity_even a then EvenParity else NoParity) w1 = Inr ws"
    and ds: "drive_session (wire_impl (target X) (serial X)) a (FlashJob img (write_options a)) ws
        = Some (Success, out3, s')" and "port s' = w'"
    by (auto simp: cmd_session_def session_opts_def split: option.splits sum.splits prod.splits)
  from drive_session_tape [OF ds] obtain tape where
    t: "drive_session (taped (wire_impl (target X) (serial X))) a (FlashJob img (write_options a)) (ws, [])
        = Some (Success, out3, (s', tape))" .
  note wr = session_success_written [OF this, unfolded f(3)]
  from pos f(1,2) d o' t [unfolded f(3)] \<open>port s' = w'\<close> wr show ?thesis by blast
qed

theorem cli_write_programs_file_witness:
  "\<exists>out w' s tape s' out'. cli_run (chip_platform sample_text) [''write'', ''-p'', ''ttyUSB0'', ''a.hex''] (0, [])
      = Some (Success, out, w')
    \<and> drive_session (taped chip_wire) sample_cli (FlashJob [0x80] True) (s, []) = Some (Success, out', (s', tape))
    \<and> written (session_frames sample_cli tape) 0 = Some 0x80
    \<and> written (session_frames sample_cli tape) 511 = Some 0xFF
    \<and> written (session_frames sample_cli tape) 512 = None"
proof -
  obtain out w' where r: "cli_run (chip_platform sample_text) [''write'', ''-p'', ''ttyUSB0'', ''a.hex''] (0, [])
      = Some (Success, out, w')" using sample_write_succeeds by blast
  have "parse tx = Inr img \<Longrightarrow> tx = sample_text \<Longrightarrow> bytes img = [0x80]" for tx img
    using sample_text_parses by auto
  with cli_write_programs_file [OF sample_cli_parses _ _ r, of "''write''"] r show ?thesis
    by (simp add: chip_platform_def) (fastforce simp: erase_blocks_for_eq ERASE_BLOCK_def)
qed

text \<open>
  C2: Whatever happens, a session only ever writes the image. However a flash session ends, on
  any wire, a byte that was written is the image's byte at that address or the padding 0xFF
  behind the image, its address lies below the code flash size of the chip, as the session itself
  read it in the status packet and reported it (if the chip is a known one), and an
  erase frame that covers the address went out before any write.
\<close>

theorem session_writes_only_image:
  assumes "drive_session (taped W) a (FlashJob img wo) (w, []) = Some (res, out, (w', tape))"
    and "written (session_frames a tape) x = Some b"
  shows "b = (if x < length img then img ! x else 0xFF)
    \<and> (\<exists>f info. status_read (taped W) a (w, []) f info \<and> TargetLines info (arg_handshake_baud a) \<in> set out
        \<and> (\<forall>cap. code_flash info = Some cap \<longrightarrow> x < cap))
    \<and> (\<exists>pre n post. session_frames a tape = pre @ erase_frame n # post
        \<and> (\<forall>f \<in> set pre. cmd f \<noteq> CMD_WRITE) \<and> x < unat n * ERASE_BLOCK)"
  using assms(1)
proof (cases rule: session_frames_cases)
  case silent
  with assms(2) show ?thesis by simp
next
  case (planned f info sts rest)
  let ?fs = "session_frames a tape"
  from written_request [OF assms(2)] obtain g lo d where g: "g \<in> set ?fs" "write_request g = Some (lo, d)"
    and x: "lo \<le> x" "x < lo + length d" "d ! (x - lo) = b" by blast
  have "g \<in> set (map frame sts)" using g(1) planned(3) by simp
  note r = flash_plan_request [OF planned(2) this g(2), of "x - lo"]
  have b: "b = (if x < length img then img ! x else 0xFF)"
    and lt: "x < erase_blocks_for (length img) * ERASE_BLOCK" using r x by simp_all
  have "written (map frame sts) x \<noteq> None"
    using flash_plan_written [OF planned(2), of x] lt by simp
  then have "\<forall>cap. code_flash info = Some cap \<longrightarrow> x < cap"
    using plan_writes_below_capacity [OF planned(1,2)] by blast
  moreover from assms(2) have "written ?fs x \<noteq> None" by simp
  from flash_prefix_erased [OF planned(2,3) this] obtain pre n post where
    "?fs = pre @ erase_frame n # post" "\<forall>f \<in> set pre. cmd f \<noteq> CMD_WRITE"
    "unat n = erase_blocks_for (length img)" by metis
  ultimately show ?thesis using b planned(5,6) lt by metis
qed

theorem session_writes_only_image_witness:
  "\<exists>out s' tape. drive_session (taped chip_wire) args_default (FlashJob [0x80] True) (chip_start, [])
      = Some (Success, out, (s', tape))
    \<and> written (session_frames args_default tape) 0 \<noteq> None
    \<and> (\<exists>pre n post. session_frames args_default tape = pre @ erase_frame n # post)"
proof -
  obtain sts where p: "plan sample_info (FlashJob [0x80] True) session_options_default = Inr sts"
    using sample_plan [of "[0x80]" True] by auto
  obtain out s' tape where d: "drive_session (taped chip_wire) args_default (FlashJob [0x80] True) (chip_start, [])
      = Some (Success, out, (s', tape))" by (rule default_session [OF p])
  have w: "written (session_frames args_default tape) 0 = Some 0x80"
    using session_success_written [OF d, of 0] by simp
  from session_writes_only_image [OF d w] d w show ?thesis by blast
qed

text \<open>
  C13: The line rate of every frame. However a session ends, on any wire, each frame it
  sent went out at the handshake baud if it is the baud probe, the baud commit or the frame of
  an identify job, and at the transfer baud otherwise; the rate is read off the
  changes the wire was told to make.
\<close>

theorem session_line_rates:
  assumes "drive_session (taped W) a job (w, []) = Some (res, out, (w', tape))"
    and "(r, f) \<in> set (sent_at (arg_handshake_baud a) tape)"
  shows "r = (if job = Identify \<or> cmd f \<in> {CMD_BAUD_PROBE, CMD_BAUD_COMMIT} then arg_handshake_baud a
              else arg_transfer_baud a)"
  using assms(1)
proof (cases rule: drive_session_cases)
  case silent
  with assms(2) show ?thesis by simp
next
  case (planned g info sts)
  let ?h = "arg_handshake_baud a"
  have o': "handshake_baud (session_opts a) = ?h" "transfer_baud (session_opts a) = arg_transfer_baud a"
    by (simp_all add: session_opts_def)
  from planned(4) assms(2) have "(r, f) \<in> set (zip (map fst (line_rates ?h sts)) (map frame sts))"
    using set_mono_prefix by blast
  with plan_frame_rates [OF planned(3), unfolded o'] show ?thesis by blast
qed

theorem session_line_rates_witness:
  "\<exists>out s' tape r. drive_session (taped chip_wire) args_default (EraseJob None) (chip_start, [])
      = Some (Success, out, (s', tape))
    \<and> (r, run_frame) \<in> set (sent_at 2400 tape) \<and> r = 115200"
proof -
  have "\<exists>sts. plan sample_info (EraseJob None) session_options_default = Inr sts"
    using sample_reload by (simp add: plan_work erase_blocks_def sample_fields ERASE_BLOCK_def)
  then obtain sts where p: "plan sample_info (EraseJob None) session_options_default = Inr sts" ..
  obtain out s' tape where d: "drive_session (taped chip_wire) args_default (EraseJob None) (chip_start, [])
      = Some (Success, out, (s', tape))" by (rule default_session [OF p])
  from d have "run_frame \<in> set (session_frames args_default tape)"
  proof (cases rule: session_frames_cases)
    case (planned g info ss rest)
    then have "session_frames args_default tape = map frame ss" by simp
    moreover from planned(2) have "run_frame \<in> set (map frame ss)" by (cases rule: plan_cases) auto
    ultimately show ?thesis by simp
  qed simp
  then obtain r where r: "(r, run_frame) \<in> set (sent_at 2400 tape)"
    by (auto simp: session_frames_def args_default_def)
  have "r = 115200"
    using session_line_rates [OF d, of r run_frame] r by (simp add: args_default_def run_frame_def stc89_commands)
  with d r show ?thesis by blast
qed

text \<open>
  Asking for the chip's identity changes nothing on it. However an identify session ends, on
  any wire, the only frame it can have sent is the one that releases the chip to its
  application; nothing is erased, written or tuned.
\<close>

lemma session_identify_only_runs:
  assumes "drive_session (taped W) a Identify (w, []) = Some (res, out, (w', tape))"
  shows "session_frames a tape = [] \<or> session_frames a tape = [run_frame]"
  using assms
  by (cases rule: session_frames_cases) (auto simp: Cons_eq_append_conv eq_commute [of "[_]"])

text \<open>
  C11: The option byte only travels back, in whole sessions. However a session ends, on any wire,
  it sent no options frame unless the job is a flash that asks for one; then it sent at most
  one, which carries byte 18 of the very status packet this session read, followed by three 0xFF, and
  exactly one when it succeeded.
\<close>

theorem session_options_echo:
  assumes "drive_session (taped W) a job (w, []) = Some (res, out, (w', tape))"
  shows "filter (\<lambda>g. cmd g = CMD_OPTIONS) (session_frames a tape) = []
      \<and> \<not> (res = Success \<and> (\<exists>img. job = FlashJob img True))
    \<or> (\<exists>img f info. job = FlashJob img True \<and> status_read (taped W) a (w, []) f info
        \<and> filter (\<lambda>g. cmd g = CMD_OPTIONS) (session_frames a tape)
          = [frame_host CMD_OPTIONS [payload f ! 18, 0xFF, 0xFF, 0xFF]])"
  using assms
proof (cases rule: session_frames_cases)
  case (planned f info sts rest)
  let ?opt = "filter (\<lambda>g. cmd g = CMD_OPTIONS)"
  have e: "?opt (session_frames a tape) @ ?opt rest =
      (case job of FlashJob _ True \<Rightarrow> [frame_host CMD_OPTIONS [payload f ! 18, 0xFF, 0xFF, 0xFF]] | _ \<Rightarrow> [])"
    using options_byte_only_echoed [OF planned(1,2)] unfolding planned(3) by simp
  show ?thesis
  proof (cases "\<exists>img. job = FlashJob img True")
    case False
    with e have "?opt (session_frames a tape) = []" by (auto split: job.splits bool.splits)
    with False show ?thesis by blast
  next
    case True
    with e have "?opt (session_frames a tape) @ ?opt rest = [frame_host CMD_OPTIONS [payload f ! 18, 0xFF, 0xFF, 0xFF]]"
      by auto
    then have "?opt (session_frames a tape) = [] \<and> ?opt rest \<noteq> []
        \<or> ?opt (session_frames a tape) = [frame_host CMD_OPTIONS [payload f ! 18, 0xFF, 0xFF, 0xFF]]"
      by (auto simp: append_eq_Cons_conv)
    with True planned(4,5) show ?thesis by auto
  qed
qed simp

theorem session_options_echo_witness:
  "\<exists>out s' tape. drive_session (taped chip_wire) args_default (FlashJob [0x80] True) (chip_start, [])
      = Some (Success, out, (s', tape))
    \<and> filter (\<lambda>g. cmd g = CMD_OPTIONS) (session_frames args_default tape)
      = [frame_host CMD_OPTIONS [0xFD, 0xFF, 0xFF, 0xFF]]"
proof -
  obtain sts where p: "plan sample_info (FlashJob [0x80] True) session_options_default = Inr sts"
    using sample_plan [of "[0x80]" True] by auto
  obtain out s' tape where d: "drive_session (taped chip_wire) args_default (FlashJob [0x80] True) (chip_start, [])
      = Some (Success, out, (s', tape))" by (rule default_session [OF p])
  from session_options_echo [OF d] obtain f info where f: "status_read (taped chip_wire) args_default (chip_start, []) f info"
    and o': "filter (\<lambda>g. cmd g = CMD_OPTIONS) (session_frames args_default tape)
      = [frame_host CMD_OPTIONS [payload f ! 18, 0xFF, 0xFF, 0xFF]]" by auto
  from sample_status_read obtain g where "status_read (taped chip_wire) args_default (chip_start, []) g sample_info" .
  from status_read_unique [OF this f] have "info = sample_info" by simp
  with parse_status_fields(1) [OF status_read_parsed [OF f]] have "payload f ! 18 = 0xFD" by (simp add: sample_fields)
  with d o' show ?thesis by auto
qed

text \<open>
  C4: A chip gets programmed. Let an STC89 be at the end of the line that may sleep through the first
  pulses, that hears and is heard only at rates near its own, that puts harmless chatter
  before its answers and whose flash holds anything, with writes that can only clear bits. If it is
  within reach, the line is drained, and the file named by a \<open>write\<close> or \<open>flash\<close> command can be read, parsed
  and fits, then the program ends with exit code 0. The
  chip is then released, its option byte is what it was, its flash holds the image, 0xFF in the
  rest of the erased region, and beyond it what it held before.
\<close>

theorem chip_is_programmed:
  assumes "parse_args argv = Inr a" and "command a = Some c" and "c \<in> {''write'', ''flash''}"
    and "positional a = path # rest" and "arg_port a = Some dev" and "arg_drain_mode a = TcDrain"
    and "read_to_string X path w = (Inr tx, w1)" and "parse tx = Inr img"
    and "serial_open (target X) (serial X) dev (arg_handshake_baud a)
        (if parity_even a then EvenParity else NoParity) w1 = Inr s"
    and "polled_wire (wire_impl (target X) (serial X)) (stc89_hear status chatter) near on_line clk"
    and "on_line s l" and "all_sent l" and "incoming l = []" and "within_reach status chatter a info (mcu l)"
    and "timer_reload (measured_hz info) (arg_transfer_baud a) = Inr reload"
    and "bytes img \<noteq> []" and "length (bytes img) \<le> 65024"
    and "\<forall>cap. code_flash info = Some cap \<longrightarrow> length (bytes img) \<le> cap"
  shows "\<exists>out s' l'. cli_main X argv w = Some (0, out, port s') \<and> on_line s' l'
    \<and> released (mcu l') \<and> option_byte (mcu l') = option_byte (mcu l)
    \<and> (\<forall>x. flash (mcu l') x =
          (if x < length (bytes img) then bytes img ! x
           else if x < erase_blocks_for (length (bytes img)) * ERASE_BLOCK then 0xFF
           else flash (mcu l) x))"
proof -
  let ?job = "FlashJob (bytes img) (write_options a)"
  obtain sts where pl: "plan info ?job (session_opts a) = Inr sts"
    using assms(15-18) plan_accepts_iff [of info "bytes img" "write_options a" "session_opts a"]
    by (auto simp: erase_blocks_for_le session_opts_def)
  obtain out s' l' where d: "drive_session (wire_impl (target X) (serial X)) a ?job s = Some (Success, out, s')"
    and chip: "on_line s' l'" "released (mcu l')" "option_byte (mcu l') = option_byte (mcu l)"
      "\<And>x. flash (mcu l') x = (if x < length (bytes img) then bytes img ! x
         else if x < erase_blocks_for (length (bytes img)) * ERASE_BLOCK then 0xFF else flash (mcu l) x)"
    by (rule flash_session_programs_chip [OF assms(10-14) assms(6) pl]) (rule that)
  obtain out1 where li: "load_image X path (quiet a) w = (Inr (bytes img), out1, w1)"
    by (simp add: load_image_def assms(7,8))
  obtain out2 where cs: "cmd_session X a ?job w1 = Some (Success, out2, port s')"
    by (simp add: cmd_session_def assms(5,9) session_opts_defaults(1) d)
  have "argv \<noteq> []" using assms(1,2) by (auto simp: parse_args_def args_default_def)
  then have "cli_run X argv w = cmd_write X a w" using assms(1-3) by (auto simp: cli_run_def)
  then have "\<exists>out. cli_run X argv w = Some (Success, out, port s')"
    by (simp add: cmd_write_def assms(4) li cs)
  then have "\<exists>out. cli_main X argv w = Some (0, out, port s')" by (auto simp: cli_main_def)
  with chip show ?thesis by blast
qed

theorem chip_is_programmed_witness:
  "\<exists>out u l'. cli_main (uart_platform sample_text) [''write'', ''-p'', ''ttyUSB0'', ''a.hex''] uart_start
      = Some (0, out, u) \<and> carries sample_hear u l' \<and> released (mcu l')
     \<and> map (flash (mcu l')) [0, 1, 511, 512] = [0x80, 0xFF, 0xFF, 0]"
proof -
  have opens: "serial_open (target (uart_platform sample_text)) (serial (uart_platform sample_text)) ''ttyUSB0''
      (arg_handshake_baud sample_cli) (if parity_even sample_cli then EvenParity else NoParity) uart_start
      = Inr \<lparr>port = uart_start, baud = 2400, fd = 3\<rparr>"
    using uart_opens by (simp add: uart_platform_def)
  have wire: "polled_wire (wire_impl (target (uart_platform sample_text)) (serial (uart_platform sample_text)))
      sample_hear near (\<lambda>s. carries sample_hear (port s)) (uart_clock \<circ> port)"
    using fifo.polled_wire_axioms by (simp add: uart_platform_def)
  have read: "read_to_string (uart_platform sample_text) ''a.hex'' uart_start = (Inr sample_text, uart_start)"
    by (simp add: uart_platform_def)
  have a: "arg_drain_mode sample_cli = TcDrain" "all_sent sample_line" "incoming sample_line = []"
    "arg_transfer_baud sample_cli = 115200"
    by (simp_all add: sample_cli_def args_default_def drain_config_default_def sample_line_def)
  have reach: "within_reach sample_packet sample_chatter sample_cli sample_info (mcu sample_line)"
    by (rule sample_within_reach) (simp_all add: a)
  have reload: "timer_reload (measured_hz sample_info) (arg_transfer_baud sample_cli) = Inr 0xFD"
    using sample_reload by (simp add: a session_options_default_def)
  have carries: "carries sample_hear (port \<lparr>port = uart_start, baud = 2400, fd = 3\<rparr>) sample_line"
    using sample_carries by simp
  let ?img = "\<lparr>bytes = [0x80], lowest_addr = 0, gap_bytes = 0\<rparr> :: image"
  have b: "command sample_cli = Some ''write''" "''write'' \<in> {''write'', ''flash''}"
    "positional sample_cli = [''a.hex'']" "arg_port sample_cli = Some ''ttyUSB0''" by simp_all
  have i: "bytes ?img \<noteq> []" "length (bytes ?img) \<le> 65024"
    "\<forall>cap. code_flash sample_info = Some cap \<longrightarrow> length (bytes ?img) \<le> cap" by (simp_all add: sample_fields)
  have e: "length (bytes ?img) = 1" "erase_blocks_for 1 * ERASE_BLOCK = 512"
    by (simp_all add: erase_blocks_for_eq ERASE_BLOCK_def)
  obtain out u l' where
    "cli_main (uart_platform sample_text) [''write'', ''-p'', ''ttyUSB0'', ''a.hex''] uart_start = Some (0, out, u)"
    "carries sample_hear u l'" "released (mcu l')"
    and "\<forall>x. flash (mcu l') x = (if x < 1 then bytes ?img ! x else if x < 512 then 0xFF else flash (mcu sample_line) x)"
    using chip_is_programmed [OF sample_cli_parses b a(1) read sample_text_parses opens wire carries a(2,3) reach
        reload i(1,2,3)] unfolding e by blast
  then show ?thesis by (auto simp: sample_line_def sample_chip_def)
qed

text \<open>
  C5: The chip is only let go when all is acknowledged. On any wire, and however the run of a plan
  ends, if the frame that releases the chip to its application went out, then every other step
  of the plan had been answered, in order, by a reply that passes its check, and each write
  step by the acknowledgement that carries exactly the sum it awaits.
\<close>

theorem chip_released_when_acknowledged:
  assumes "plan info job opts = Inr sts"
    and "run (taped W) (session_new sts) cfg log (w, []) = Some (ex, s', log', (w', tape))"
    and "WriteEvt (encode run_frame) \<in> set tape"
  shows "\<exists>fs fs'. replies log' = replies log @ fs @ fs' \<and> list_all2 reply_fits (butlast sts) fs
    \<and> list_all2 (\<lambda>st f. \<forall>want. expect st = BlockAck want \<longrightarrow> cmd f = REPLY_ACK \<and> payload f = [want])
        (butlast sts) fs"
proof -
  from plan_frames_last [OF assms(1)] obtain pre where sts: "sts = pre @ [run_step opts]"
    and pre: "\<forall>t \<in> set pre. expect t \<noteq> Nothing \<and> frame t \<noteq> run_frame" by blast
  from run_taped_stops [OF assms(2)] obtain k fs fs' where k: "k \<le> length sts"
    and p: "prefix (commands tape) (concat (map (step_events cfg) (take (Suc k) sts)))"
    and r: "replies log' = replies log @ fs @ fs'" "list_all2 reply_fits (awaited (take k sts)) fs"
    by (auto simp: stop_and_wait_def)
  have "WriteEvt (encode run_frame) \<in> set (commands tape)" using assms(3) by (simp add: commands_def)
  then have "WriteEvt (encode run_frame) \<in> set (concat (map (step_events cfg) (take (Suc k) sts)))"
    using set_mono_prefix [OF p] by blast
  then obtain t where t: "t \<in> set (take (Suc k) sts)" "frame t = run_frame"
    by (auto simp: write_in_step_events frame_codec.enc_inject)
  have "length pre \<le> k"
  proof (rule ccontr)
    assume "\<not> length pre \<le> k"
    then have "take (Suc k) sts = take (Suc k) pre" by (simp add: sts)
    with t pre show False by (metis in_set_takeD)
  qed
  with k have "k = length pre \<or> k = Suc (length pre)" by (auto simp: sts)
  then have "awaited (take k sts) = awaited pre" by (auto simp: sts awaited_def)
  also have "\<dots> = butlast sts" using pre by (simp add: sts awaited_def)
  finally have "list_all2 reply_fits (butlast sts) fs" using r(2) by simp
  moreover from this have "list_all2 (\<lambda>st f. \<forall>want. expect st = BlockAck want \<longrightarrow> cmd f = REPLY_ACK \<and> payload f = [want])
      (butlast sts) fs" by (rule list_all2_mono) (simp add: reply_fits_block)
  ultimately show ?thesis using r(1) by blast
qed

theorem chip_released_when_acknowledged_witness:
  "\<exists>ex s' log' w' tape. run (taped scripted) (session_new [run_step session_options_default]) drain_config_default []
       ((0, []), []) = Some (ex, s', log', (w', tape))
     \<and> (\<exists>fs fs'. replies log' = fs @ fs' \<and> list_all2 reply_fits [] fs)"
proof -
  have r: "run (taped scripted) (session_new [run_step session_options_default]) drain_config_default []
      ((0, []), []) = Some (Done (), (session_new [run_step session_options_default])\<lparr>at := 1\<rparr>,
        [LogStep (label (run_step session_options_default)) (encode run_frame)],
        ((0, []), [WriteEvt (encode run_frame), FlushEvt]))"
    by (simp add: run_def run_loop.simps next_action_def session_new_def run_step_def advance_def
        send_frame_def andthen_def ret_def io_def say_def taped_def tape_call_def scripted_def)
  from chip_released_when_acknowledged [OF plan_Identify r] r show ?thesis by auto
qed

section \<open>Properties of the command line\<close>

text \<open>
  C23: \<open>explain\<close> shows what a session would do. The addresses and acknowledgements it prints for
  a file are those of the write steps of every plan that flashes the file's image, in order and
  whatever the chip.
\<close>

theorem explain_matches_plan:
  assumes "cmd_explain X a w = (Success, out, w')"
  shows "\<exists>path rest tx img. positional a = path # rest \<and> read_to_string X path w = (Inr tx, w')
    \<and> parse tx = Inr img
    \<and> (\<forall>info wo opts sts. plan info (FlashJob (bytes img) wo) opts = Inr sts \<longrightarrow>
         explained_rows out = planned_rows sts)"
proof -
  from assms obtain path rest img out1 where pos: "positional a = path # rest"
    and l: "load_image X path (quiet a) w = (Inr img, out1, w')" and out: "out = out1 @ explain_lines img"
    by (auto simp: cmd_explain_def split: list.splits prod.splits sum.splits)
  from l obtain tx i where f: "read_to_string X path w = (Inr tx, w')" "parse tx = Inr i" "img = bytes i"
    by (rule load_image_result)
  have "explained_rows out1 = []" using load_image_rows [OF l] .
  then have "explained_rows out = planned_rows sts" if "plan info (FlashJob (bytes i) wo) opts = Inr sts"
    for info wo opts sts
    using explain_plan [OF that] by (simp add: out f(3))
  with pos f(1,2) show ?thesis by blast
qed

theorem explain_matches_plan_witness:
  "\<exists>out w' sts. cmd_explain (chip_platform sample_text) sample_cli (0, []) = (Success, out, w')
     \<and> plan sample_info (FlashJob [0x80] True) session_options_default = Inr sts
     \<and> explained_rows out = planned_rows sts"
proof -
  let ?X = "chip_platform sample_text"
  obtain out w' where e: "cmd_explain ?X sample_cli (0, []) = (Success, out, w')"
    by (simp add: cmd_explain_def load_image_def chip_platform_def sample_text_parses)
  obtain sts where p: "plan sample_info (FlashJob [0x80] True) session_options_default = Inr sts"
    using sample_plan [of "[0x80]" True] by auto
  have "read_to_string ?X path w = (Inr tx, w2) \<Longrightarrow> parse tx = Inr img \<Longrightarrow> bytes img = [0x80]" for path w tx w2 img
    using sample_text_parses by (auto simp: chip_platform_def)
  with explain_matches_plan [OF e] p have "explained_rows out = planned_rows sts" by metis
  with e p show ?thesis by blast
qed

text \<open>
  C24: The argument parser reads back every setting. For settings whose margin fits 64 bits
  and whose words do not look like options, the argument list that spells them out is
  parsed to exactly these settings.
\<close>

theorem args_read_back:
  assumes "expressible a"
  shows "parse_args (render_args a) = Inr a"
  using assms by (rule parse_render)

theorem args_read_back_witness:
  "parse_args (render_args (sample_cli\<lparr>drain_margin_ms := - 5, arg_blocks := Some 32\<rparr>))
     = Inr (sample_cli\<lparr>drain_margin_ms := - 5, arg_blocks := Some 32\<rparr>)"
  by (rule args_read_back)
    (simp add: expressible_def plain_word_def sample_cli_def args_default_def)

text \<open>
  C12: The program ends, and never by a panic. For every argument list, every file and every
  serial port whose clock advances and whose reads stay in their buffer, \<open>main\<close> returns with
  exit code 0 or 1.
\<close>

theorem cli_main_returns:
  assumes "orderly_port (serial X) clk"
  shows "\<exists>code out w'. cli_main X argv w = Some (code, out, w') \<and> code \<le> 1"
proof -
  from cli_run_returns [OF assms] obtain res out w' where
    "cli_run X argv w = Some (res, out, w')" "res \<noteq> Aborted" by blast
  then show ?thesis by (cases res) (simp_all add: cli_main_def)
qed

theorem cli_main_returns_witness:
  "\<exists>code out w'. cli_main (chip_platform '''') [''identify'', ''-p'', ''ttyUSB0'', ''--wait'', ''2''] (0, [])
     = Some (code, out, w') \<and> code \<le> 1"
proof -
  have "orderly_port (serial (chip_platform '''')) fst" by (simp add: chip_platform_def chip_port_orderly)
  then show ?thesis by (rule cli_main_returns)
qed

text \<open>
  Recording changes nothing. Every session that returns on a wire also returns, with the
  same result, output and wire, when the operations on the wire are recorded; so what the
  properties say of a recorded session holds of the session itself.
\<close>

lemma recording_changes_nothing:
  assumes "drive_session W a job w = Some (res, out, w')"
  shows "\<exists>tape. drive_session (taped W) a job (w, []) = Some (res, out, (w', tape))"
  using drive_session_tape [OF assms] by blast

text \<open>
  C25: What \<open>--quiet\<close> leaves, command by command. A successful quiet run of a command that opens a session
  prints the report of the target and the outcome of its job, in this order, and nothing
  else: no step, no note, no line about the image. A quiet \<open>explain\<close> loses the lines about the
  image and keeps its whole table; a quiet \<open>ports\<close> prints what it always prints. This is
  more than the usage text says, which promises the outcome only.
\<close>

theorem quiet_run_prints:
  assumes "parse_args argv = Inr a" and "quiet a" and "command a = Some c"
    and "cli_run X argv w = Some (Success, out, w')"
  shows "(\<exists>info job. c \<in> {''identify'', ''info'', ''erase'', ''write'', ''flash''}
      \<and> out = [TargetLines info (arg_handshake_baud a), DoneLine job]
      \<and> stdout_text shown out = report_target info (arg_handshake_baud a) @ done_text job
      \<and> (c \<in> {''identify'', ''info''} \<longrightarrow> job = Identify)
      \<and> (c = ''erase'' \<longrightarrow> job = EraseJob (arg_blocks a))
      \<and> (c \<in> {''write'', ''flash''} \<longrightarrow>
          (\<exists>path rest tx w1 img. positional a = path # rest \<and> read_to_string X path w = (Inr tx, w1)
            \<and> parse tx = Inr img \<and> job = FlashJob (bytes img) (write_options a))))
    \<or> c = ''explain'' \<and>
        (\<exists>path rest tx img. positional a = path # rest \<and> read_to_string X path w = (Inr tx, w')
          \<and> parse tx = Inr img \<and> out = explain_lines (bytes img))
    \<or> c = ''ports'' \<and> cmd_ports X w = (Success, out, w')"
proof -
  have "argv \<noteq> []" using assms(1,3) by (auto simp: parse_args_def args_default_def parse_loop.simps [of "[]"])
  with assms(1,3) have run: "cli_run X argv w =
      (if c = ''ports'' then Some (cmd_ports X w)
       else if c = ''explain'' then Some (cmd_explain X a w)
       else if c = ''identify'' \<or> c = ''info'' then cmd_session X a Identify w
       else if c = ''erase'' then cmd_session X a (EraseJob (arg_blocks a)) w
       else if c = ''write'' \<or> c = ''flash'' then cmd_write X a w
       else Some (Stopped (UnknownCommand c), [], w))"
    by (simp add: cli_run_def)
  consider "c = ''identify'' \<or> c = ''info''" | "c = ''erase''" | "c = ''write'' \<or> c = ''flash''"
    | "c = ''explain''" | "c = ''ports''"
    using run assms(4) by (auto split: if_splits)
  then show ?thesis
  proof cases
    case 1
    with run assms(4) have "cmd_session X a Identify w = Some (Success, out, w')" by auto
    from quiet_cmd_session [OF this assms(2)] obtain info where
      "out = [TargetLines info (arg_handshake_baud a), DoneLine Identify]" by blast
    with 1 show ?thesis by (intro disjI1 exI [of _ info] exI [of _ Identify]) (auto simp: stdout_text_def)
  next
    case 2
    with run assms(4) have "cmd_session X a (EraseJob (arg_blocks a)) w = Some (Success, out, w')" by simp
    from quiet_cmd_session [OF this assms(2)] obtain info where
      "out = [TargetLines info (arg_handshake_baud a), DoneLine (EraseJob (arg_blocks a))]" by blast
    with 2 show ?thesis
      by (intro disjI1 exI [of _ info] exI [of _ "EraseJob (arg_blocks a)"]) (simp add: stdout_text_def)
  next
    case 3
    with run assms(4) have "cmd_write X a w = Some (Success, out, w')" by auto
    from quiet_cmd_write [OF this assms(2)] obtain info path rest tx w1 img where
      f: "positional a = path # rest" "read_to_string X path w = (Inr tx, w1)" "parse tx = Inr img"
      and o': "out = [TargetLines info (arg_handshake_baud a), DoneLine (FlashJob (bytes img) (write_options a))]"
      by blast
    have c: "c \<in> {''identify'', ''info'', ''erase'', ''write'', ''flash''}"
      "\<not> (c \<in> {''identify'', ''info''})" "c \<noteq> ''erase''" using 3 by auto
    from f have "\<exists>path rest tx w1 i. positional a = path # rest \<and> read_to_string X path w = (Inr tx, w1)
        \<and> parse tx = Inr i \<and> FlashJob (bytes img) (write_options a) = FlashJob (bytes i) (write_options a)" by blast
    with c show ?thesis
      by (intro disjI1 exI [of _ info] exI [of _ "FlashJob (bytes img) (write_options a)"])
        (simp add: o' stdout_text_def del: split_paired_Ex)
  next
    case 4
    with run assms(4) have "cmd_explain X a w = (Success, out, w')" by simp
    from quiet_cmd_explain [OF this assms(2)] 4 show ?thesis by blast
  qed (use run assms(4) in simp)
qed

theorem quiet_run_prints_witness:
  "\<exists>out w' info. cli_run (chip_platform []) [''identify'', ''-p'', ''ttyUSB0'', ''-q''] (0, []) = Some (Success, out, w')
     \<and> stdout_text (\<lambda>_. True) out = report_target info 2400 @ done_text Identify"
proof -
  let ?a = "args_default\<lparr>arg_port := Some ''ttyUSB0'', command := Some ''identify'', quiet := True\<rparr>"
  let ?argv = "[''identify'', ''-p'', ''ttyUSB0'', ''-q'']"
  have p: "parse_args ?argv = Inr ?a"
    by (simp add: parse_args_def parse_loop.simps [of "_ # _"] parse_loop.simps [of "[]"] parse_arg_def
        flag_arm_def value_arm_def next_value_def args_default_def)
  have "\<exists>out w'. cmd_session (chip_platform []) ?a Identify (0, []) = Some (Success, out, w')"
    by (rule chip_platform_session [OF _ _ _ plan_Identify]) (simp_all add: args_default_def)
  then obtain out w' where s: "cmd_session (chip_platform []) ?a Identify (0, []) = Some (Success, out, w')"
    by blast
  then have r: "cli_run (chip_platform []) ?argv (0, []) = Some (Success, out, w')"
    by (simp add: cli_run_def p)
  have h: "arg_handshake_baud ?a = 2400" by (simp add: args_default_def)
  have "quiet ?a" "command ?a = Some ''identify''" by simp_all
  from quiet_run_prints [OF p this r, of "\<lambda>_. True"] obtain info where
    "stdout_text (\<lambda>_. True) out = report_target info 2400 @ done_text Identify" by (auto simp: h)
  with r show ?thesis by blast
qed

end
